theory Spec2Isabelle
  imports Complex_Main "HOL-Library.Char_ord" "HOL-Library.List_Lexorder" "HOL-Library.Multiset"
begin

section \<open>Python strings and integers\<close>

text \<open>
  Spot numbers are Python strings. They are modelled as \<open>string\<close> restricted to ASCII,
  which is all the application ever writes. The three string built-ins the controllers
  use are \<open>str.upper\<close>, \<open>str.replace('S', '')\<close> and \<open>int(str)\<close>; \<open>str(int)\<close>
  is what an f-string does with a number.
\<close>

definition py_upper :: "string \<Rightarrow> string" where
  "py_upper s =
     map (\<lambda>c. let k = (of_char c :: nat) in if 97 \<le> k \<and> k \<le> 122 then char_of (k - 32) else c) s"

definition remove_S :: "string \<Rightarrow> string" where
  "remove_S s = filter (\<lambda>c. c \<noteq> CHR ''S'') s"

text \<open>
  The whitespace \<open>int(str)\<close> skips at both ends of an ASCII string: tab, line feed,
  vertical tab, form feed, carriage return and the space.
\<close>

definition is_space :: "char \<Rightarrow> bool" where
  "is_space c = (let k = (of_char c :: nat) in (9 \<le> k \<and> k \<le> 13) \<or> k = 32)"

definition py_strip :: "string \<Rightarrow> string" where
  "py_strip s = rev (dropWhile is_space (rev (dropWhile is_space s)))"

definition digit_val :: "char \<Rightarrow> nat option" where
  "digit_val c = (let k = (of_char c :: nat) in if 48 \<le> k \<and> k \<le> 57 then Some (k - 48) else None)"

definition digit_char :: "nat \<Rightarrow> char" where
  "digit_char d = char_of (48 + d)"

text \<open>
  The digits of \<open>int(s)\<close>: at least one digit, single underscores allowed between
  digits. The flag says that a digit has to come next (at the start and after an
  underscore); \<open>None\<close> is Python's \<open>ValueError\<close>.
\<close>

fun digits_value :: "bool \<Rightarrow> nat \<Rightarrow> string \<Rightarrow> nat option" where
  "digits_value need acc [] = (if need then None else Some acc)"
| "digits_value need acc (c # cs) =
     (case digit_val c of
        Some d \<Rightarrow> digits_value False (10 * acc + d) cs
      | None \<Rightarrow> if c = CHR ''_'' \<and> \<not> need then digits_value True acc cs else None)"

definition py_int :: "string \<Rightarrow> int option" where
  "py_int s =
     (case py_strip s of
        [] \<Rightarrow> None
      | c # cs \<Rightarrow>
          if c = CHR ''-'' then map_option (\<lambda>n. - int n) (digits_value True 0 cs)
          else if c = CHR ''+'' then map_option int (digits_value True 0 cs)
          else map_option int (digits_value True 0 (c # cs)))"

fun str_nat :: "nat \<Rightarrow> string" where
  "str_nat n = (if n < 10 then [digit_char n] else str_nat (n div 10) @ [digit_char (n mod 10)])"

declare str_nat.simps [simp del]

definition py_str :: "int \<Rightarrow> string" where
  "py_str i = (if i < 0 then CHR ''-'' # str_nat (nat (- i)) else str_nat (nat i))"

section \<open>Spot numbering\<close>

text \<open>
  \<open>format_spot_number\<close> of \<^verbatim>\<open>parking_app/controllers.py\<close> accepts an \<open>int\<close> or a
  \<open>str\<close>; the argument is a value of either type.
\<close>

datatype py_val = PInt int | PStr string

fun format_spot_number :: "py_val \<Rightarrow> string" where
  "format_spot_number (PInt number) = ''S'' @ py_str number"
| "format_spot_number (PStr number) =
     (case py_int (remove_S (py_upper number)) of
        Some num \<Rightarrow> ''S'' @ py_str num
      | None \<Rightarrow> ''S'' @ number)"

section \<open>Data model\<close>

text \<open>
  The tables of \<^verbatim>\<open>models.py\<close> (and of the same classes in \<^verbatim>\<open>app.py\<close>). A table
  is the list of its rows in storage order, which is the order a query without
  \<open>ORDER BY\<close> returns them in; a new row goes to the end with a fresh primary key.
  The status column only ever holds \<open>'A'\<close> or \<open>'O'\<close>. A \<open>DateTime\<close> is a
  number of microseconds, a \<open>Float\<close> is idealised as a rational number.
\<close>

type_synonym datetime = int

datatype spot_status = Available | Occupied

record user =
  u_id :: nat
  role :: string

definition is_admin :: "user \<Rightarrow> bool" where
  "is_admin u = (role u = ''admin'')"

record parking_lot =
  lot_id :: nat
  name :: string
  address :: string
  pincode :: string
  price_per_hour :: rat
  max_no_spots :: int

record parking_spot =
  spot_id :: nat
  parking_lot_id :: nat
  spot_number :: string
  status :: spot_status
  user_id :: "nat option"

record booking =
  booking_id :: nat
  b_user_id :: nat
  b_parking_lot_id :: nat
  parking_spot_id :: nat
  vehicle_number :: string
  in_time :: datetime
  out_time :: "datetime option"
  cost :: "rat option"

record db =
  lots :: "parking_lot list"
  spots :: "parking_spot list"
  bookings :: "booking list"

definition empty_db :: db where
  "empty_db = \<lparr>lots = [], spots = [], bookings = []\<rparr>"

text \<open>
  What a view answers. Every view is behind \<open>login_required\<close>: \<open>current_user\<close> is the
  user who is logged in. \<open>Failure\<close> carries the reason of a flashed error message, of
  a 404 or of an uncaught exception; \<open>Rendered\<close> is the form page of a GET. The second
  component of every result is the database after the request: a view that returns before
  \<open>db.session.commit()\<close>, or raises, leaves the database as it was.

  The errors, by the messages the views flash:
  \<^item> \<open>Forbidden\<close>: the redirect of a user who is not an admin;
  \<^item> \<open>NotFound\<close>: \<open>get_or_404\<close>;
  \<^item> \<open>InvalidCapacity\<close>: 'A parking lot must have at least 1 spot.' (\<^verbatim>\<open>app.py\<close> only);
  \<^item> \<open>CapacityBelowOccupancy\<close>: 'Cannot reduce spots below current occupancy';
  \<^item> \<open>AlreadyParked\<close>: 'You already have an active booking.';
  \<^item> \<open>LotFull\<close>: 'Sorry, no spots are available in this lot.';
  \<^item> \<open>NotYourBooking\<close>: 'This is not your booking.';
  \<^item> \<open>AlreadyReleased\<close>: the specification's name for a second release; no view answers it;
  \<^item> \<open>ServerError\<close>: an exception that leaves the view (\<open>ValueError\<close>, \<open>IntegrityError\<close>,
    an attribute of \<open>None\<close>).
\<close>

datatype http_method = GET | POST

datatype error =
  Forbidden | NotFound | InvalidCapacity | CapacityBelowOccupancy
  | AlreadyParked | LotFull | NotYourBooking | AlreadyReleased | ServerError

datatype response = Success | Failure error | Rendered

text \<open>
  The form of the lot pages, with the fields as the views parse them:
  \<open>float(request.form.get('price_per_hour'))\<close> and \<open>int(request.form.get('max_no_spots'))\<close>.
\<close>

record lot_form =
  f_name :: string
  f_address :: string
  f_pincode :: string
  f_price_per_hour :: rat
  f_max_no_spots :: int

subsection \<open>Queries and row operations\<close>

definition get_lot :: "db \<Rightarrow> nat \<Rightarrow> parking_lot option" where
  "get_lot d lid = find (\<lambda>l. lot_id l = lid) (lots d)"

definition get_spot :: "db \<Rightarrow> nat \<Rightarrow> parking_spot option" where
  "get_spot d sid = find (\<lambda>s. spot_id s = sid) (spots d)"

definition get_booking :: "db \<Rightarrow> nat \<Rightarrow> booking option" where
  "get_booking d bid = find (\<lambda>b. booking_id b = bid) (bookings d)"

definition lot_spots :: "db \<Rightarrow> nat \<Rightarrow> parking_spot list" where
  "lot_spots d lid = filter (\<lambda>s. parking_lot_id s = lid) (spots d)"

definition spots_with_status :: "db \<Rightarrow> nat \<Rightarrow> spot_status \<Rightarrow> parking_spot list" where
  "spots_with_status d lid st = filter (\<lambda>s. parking_lot_id s = lid \<and> status s = st) (spots d)"

definition active_booking :: "db \<Rightarrow> nat \<Rightarrow> booking option" where
  "active_booking d uid = find (\<lambda>b. b_user_id b = uid \<and> out_time b = None) (bookings d)"

definition next_id :: "nat list \<Rightarrow> nat" where
  "next_id ids = Suc (fold max ids 0)"

definition add_spot :: "string \<Rightarrow> nat \<Rightarrow> db \<Rightarrow> db" where
  "add_spot number lid d =
     d\<lparr>spots := spots d @
        [\<lparr>spot_id = next_id (map spot_id (spots d)), parking_lot_id = lid,
          spot_number = number, status = Available, user_id = None\<rparr>]\<rparr>"

text \<open>Deleting a spot deletes its bookings (\<open>cascade="all, delete-orphan"\<close>).\<close>

definition delete_spot :: "parking_spot \<Rightarrow> db \<Rightarrow> db" where
  "delete_spot spot d =
     d\<lparr>spots := filter (\<lambda>s. spot_id s \<noteq> spot_id spot) (spots d),
       bookings := filter (\<lambda>b. parking_spot_id b \<noteq> spot_id spot) (bookings d)\<rparr>"

definition update_lot :: "nat \<Rightarrow> (parking_lot \<Rightarrow> parking_lot) \<Rightarrow> db \<Rightarrow> db" where
  "update_lot lid f d = d\<lparr>lots := map (\<lambda>l. if lot_id l = lid then f l else l) (lots d)\<rparr>"

definition update_spot :: "nat \<Rightarrow> (parking_spot \<Rightarrow> parking_spot) \<Rightarrow> db \<Rightarrow> db" where
  "update_spot sid f d = d\<lparr>spots := map (\<lambda>s. if spot_id s = sid then f s else s) (spots d)\<rparr>"

definition update_booking :: "nat \<Rightarrow> (booking \<Rightarrow> booking) \<Rightarrow> db \<Rightarrow> db" where
  "update_booking bid f d =
     d\<lparr>bookings := map (\<lambda>b. if booking_id b = bid then f b else b) (bookings d)\<rparr>"

definition set_lot_details :: "lot_form \<Rightarrow> parking_lot \<Rightarrow> parking_lot" where
  "set_lot_details form l =
     l\<lparr>name := f_name form, address := f_address form, pincode := f_pincode form,
       price_per_hour := f_price_per_hour form\<rparr>"

text \<open>The numeric part of a spot number, the sort key \<open>get_spot_number\<close> of the controllers.\<close>

definition get_spot_number :: "parking_spot \<Rightarrow> int" where
  "get_spot_number spot =
     (case py_int (remove_S (py_upper (spot_number spot))) of Some n \<Rightarrow> n | None \<Rightarrow> 0)"

section \<open>The views of \<^verbatim>\<open>parking_app/controllers.py\<close>\<close>

subsection \<open>\<open>create_parking_lot\<close>\<close>

definition create_parking_lot :: "db \<Rightarrow> user \<Rightarrow> http_method \<Rightarrow> lot_form \<Rightarrow> response \<times> db" where
  "create_parking_lot d current_user method form =
     (if \<not> is_admin current_user then (Failure Forbidden, d)
      else if method = POST then
        let new_lot = \<lparr>lot_id = next_id (map lot_id (lots d)), name = f_name form,
                       address = f_address form, pincode = f_pincode form,
                       price_per_hour = f_price_per_hour form,
                       max_no_spots = f_max_no_spots form\<rparr>;
            d1 = d\<lparr>lots := lots d @ [new_lot]\<rparr>;
            max_spots = max_no_spots new_lot
        in (Success,
            fold (\<lambda>i. add_spot (format_spot_number (PInt i)) (lot_id new_lot)) [1..max_spots] d1)
      else (Rendered, d))"

subsection \<open>\<open>reserve_spot\<close>\<close>

text \<open>
  \<open>now\<close> is the clock reading that becomes the booking's \<open>in_time\<close> (the column
  default). The spot is the first row the filtered query returns.
\<close>

definition reserve_spot ::
  "db \<Rightarrow> user \<Rightarrow> nat \<Rightarrow> http_method \<Rightarrow> string \<Rightarrow> datetime \<Rightarrow> response \<times> db" where
  "reserve_spot d current_user lid method vehicle now =
     (if active_booking d (u_id current_user) \<noteq> None then (Failure AlreadyParked, d)
      else case get_lot d lid of
        None \<Rightarrow> (Failure NotFound, d)
      | Some lot \<Rightarrow>
          if method = POST then
            (case spots_with_status d lid Available of
               [] \<Rightarrow> (Failure LotFull, d)
             | spot # _ \<Rightarrow>
                 let d1 = update_spot (spot_id spot)
                            (\<lambda>s. s\<lparr>status := Occupied, user_id := Some (u_id current_user)\<rparr>) d;
                     new_booking =
                       \<lparr>booking_id = next_id (map booking_id (bookings d1)),
                        b_user_id = u_id current_user, b_parking_lot_id = lot_id lot,
                        parking_spot_id = spot_id spot, vehicle_number = vehicle,
                        in_time = now, out_time = None, cost = None\<rparr>
                 in (Success, d1\<lparr>bookings := bookings d1 @ [new_booking]\<rparr>))
          else (Rendered, d))"

subsection \<open>\<open>release_spot\<close>\<close>

definition total_seconds :: "int \<Rightarrow> rat" where
  "total_seconds delta = of_int delta / 1000000"

text \<open>
  Python's \<open>round(x, ndigits)\<close>: to the nearest, a tie to the even neighbour. The
  price, the hours and the cost are binary floats in the code and exact rationals here.
  Where the exact product lies on a decimal tie the float product lies beside it, and the
  code's cost can then differ from this one by 0.01; the two agree whenever hours times
  price is computed exactly, as it is for whole hours at a whole price.
\<close>

definition py_round :: "rat \<Rightarrow> nat \<Rightarrow> rat" where
  "py_round x ndigits =
     (let scale = 10 ^ ndigits; y = x * scale; f = \<lfloor>y\<rfloor>; r = y - of_int f
      in of_int (if r < 1 / 2 then f else if 1 / 2 < r then f + 1
                 else if even f then f else f + 1) / scale)"

text \<open>
  \<open>now\<close> is what \<open>datetime.utcnow()\<close> returns. A booking whose spot or lot row is
  missing makes the view raise, and nothing is committed.
\<close>

definition release_spot :: "db \<Rightarrow> user \<Rightarrow> nat \<Rightarrow> datetime \<Rightarrow> response \<times> db" where
  "release_spot d current_user bid now =
     (case get_booking d bid of
        None \<Rightarrow> (Failure NotFound, d)
      | Some booking \<Rightarrow>
          if b_user_id booking \<noteq> u_id current_user then (Failure NotYourBooking, d)
          else case (get_spot d (parking_spot_id booking), get_lot d (b_parking_lot_id booking)) of
            (Some spot, Some lot) \<Rightarrow>
              let out = now;
                  duration_seconds = total_seconds (out - in_time booking);
                  duration_hours = duration_seconds / 3600;
                  c = py_round (duration_hours * price_per_hour lot) 2;
                  d1 = update_booking bid (\<lambda>b. b\<lparr>out_time := Some out, cost := Some c\<rparr>) d
              in (Success,
                  update_spot (spot_id spot) (\<lambda>s. s\<lparr>status := Available, user_id := None\<rparr>) d1)
          | _ \<Rightarrow> (Failure ServerError, d))"

subsection \<open>\<open>edit_parking_lot\<close>\<close>

text \<open>The branch \<open>new_max_spots > lot.max_no_spots\<close>.\<close>

definition normalize_spot_numbers :: "nat \<Rightarrow> db \<Rightarrow> db" where
  "normalize_spot_numbers lid d =
     d\<lparr>spots := map (\<lambda>spot. if parking_lot_id spot = lid
                             then spot\<lparr>spot_number := format_spot_number (PStr (spot_number spot))\<rparr>
                             else spot) (spots d)\<rparr>"

definition highest_number :: "parking_spot list \<Rightarrow> int" where
  "highest_number current_spots =
     fold (\<lambda>spot highest.
             case py_int (remove_S (py_upper (spot_number spot))) of
               Some num \<Rightarrow> if num > highest then num else highest
             | None \<Rightarrow> highest)
          current_spots 0"

definition grow_spots :: "parking_lot \<Rightarrow> int \<Rightarrow> db \<Rightarrow> db" where
  "grow_spots lot new_max_spots d =
     (let d1 = normalize_spot_numbers (lot_id lot) d;
          highest = highest_number (lot_spots d1 (lot_id lot));
          spots_to_add = new_max_spots - max_no_spots lot
      in fold (\<lambda>i. add_spot (format_spot_number (PInt (highest + i))) (lot_id lot))
              [1..spots_to_add] d1)"

text \<open>
  The branch \<open>new_max_spots < lot.max_no_spots\<close>. \<open>list.sort\<close> is stable, also with
  \<open>reverse=True\<close>, which is the stable sort by the negated key.
\<close>

definition spots_to_remove :: "parking_lot \<Rightarrow> int \<Rightarrow> db \<Rightarrow> parking_spot list" where
  "spots_to_remove lot new_max_spots d =
     (let all_spots = sort_key get_spot_number (lot_spots d (lot_id lot));
          occupied = filter (\<lambda>spot. status spot = Occupied) all_spots;
          available = filter (\<lambda>spot. status spot = Available) all_spots;
          available_spots_to_keep = new_max_spots - int (length occupied)
      in if available_spots_to_keep < int (length available)
         then take (nat (int (length available) - available_spots_to_keep))
                (sort_key (\<lambda>spot. - get_spot_number spot) available)
         else [])"

definition shrink_spots :: "parking_lot \<Rightarrow> int \<Rightarrow> db \<Rightarrow> db" where
  "shrink_spots lot new_max_spots d = fold delete_spot (spots_to_remove lot new_max_spots d) d"

text \<open>The renumbering: the lot's spots, sorted by their current number, get 1, 2, ...\<close>

definition renumber :: "nat \<Rightarrow> db \<Rightarrow> db" where
  "renumber lid d =
     (let all_spots = sort_key get_spot_number (lot_spots d lid);
          numbering = zip (map spot_id all_spots) [1..int (length all_spots)]
      in d\<lparr>spots := map (\<lambda>spot. if parking_lot_id spot = lid
                                 then (case map_of numbering (spot_id spot) of
                                         Some i \<Rightarrow> spot\<lparr>spot_number := format_spot_number (PInt i)\<rparr>
                                       | None \<Rightarrow> spot)
                                 else spot) (spots d)\<rparr>)"

definition edit_parking_lot ::
  "db \<Rightarrow> user \<Rightarrow> nat \<Rightarrow> http_method \<Rightarrow> lot_form \<Rightarrow> response \<times> db" where
  "edit_parking_lot d current_user lid method form =
     (if \<not> is_admin current_user then (Failure Forbidden, d)
      else case get_lot d lid of
        None \<Rightarrow> (Failure NotFound, d)
      | Some lot \<Rightarrow>
          let occupied_spots = int (length (spots_with_status d lid Occupied)) in
          if method = POST then
            let new_max_spots = f_max_no_spots form in
            if new_max_spots < occupied_spots then (Failure CapacityBelowOccupancy, d)
            else
              let d1 = update_lot lid (set_lot_details form) d;
                  d2 = (if new_max_spots > max_no_spots lot then grow_spots lot new_max_spots d1
                        else if new_max_spots < max_no_spots lot then shrink_spots lot new_max_spots d1
                        else d1);
                  d3 = update_lot lid (\<lambda>l. l\<lparr>max_no_spots := new_max_spots\<rparr>) d2
              in (Success, renumber lid d3)
          else (Rendered, d))"

section \<open>The views of \<^verbatim>\<open>app.py\<close>\<close>

text \<open>
  \<^verbatim>\<open>app.py\<close> declares a lot's name and address \<open>unique\<close>: writing a duplicate raises
  at the flush, and the request commits nothing.
\<close>

definition unique_violation :: "db \<Rightarrow> nat \<Rightarrow> lot_form \<Rightarrow> bool" where
  "unique_violation d lid form =
     list_ex (\<lambda>l. lot_id l \<noteq> lid \<and> (name l = f_name form \<or> address l = f_address form)) (lots d)"

definition app_create_parking_lot ::
  "db \<Rightarrow> user \<Rightarrow> http_method \<Rightarrow> lot_form \<Rightarrow> response \<times> db" where
  "app_create_parking_lot d current_user method form =
     (if \<not> is_admin current_user then (Failure Forbidden, d)
      else if method = POST then
        let new_lot = \<lparr>lot_id = next_id (map lot_id (lots d)), name = f_name form,
                       address = f_address form, pincode = f_pincode form,
                       price_per_hour = f_price_per_hour form,
                       max_no_spots = f_max_no_spots form\<rparr>;
            d1 = d\<lparr>lots := lots d @ [new_lot]\<rparr>
        in if unique_violation d (lot_id new_lot) form then (Failure ServerError, d)
           else (Success,
                 fold (\<lambda>i. add_spot (''S'' @ py_str i) (lot_id new_lot)) [1..max_no_spots new_lot] d1)
      else (Rendered, d))"

text \<open>Here \<open>now\<close> is \<open>datetime.now(pytz.timezone('Asia/Kolkata'))\<close>.\<close>

definition app_reserve_spot ::
  "db \<Rightarrow> user \<Rightarrow> nat \<Rightarrow> http_method \<Rightarrow> string \<Rightarrow> datetime \<Rightarrow> response \<times> db" where
  "app_reserve_spot d current_user lid method vehicle now =
     (if active_booking d (u_id current_user) \<noteq> None then (Failure AlreadyParked, d)
      else case get_lot d lid of
        None \<Rightarrow> (Failure NotFound, d)
      | Some lot \<Rightarrow>
          if method = POST then
            (case spots_with_status d lid Available of
               [] \<Rightarrow> (Failure LotFull, d)
             | spot # _ \<Rightarrow>
                 let d1 = update_spot (spot_id spot)
                            (\<lambda>s. s\<lparr>status := Occupied, user_id := Some (u_id current_user)\<rparr>) d;
                     new_booking =
                       \<lparr>booking_id = next_id (map booking_id (bookings d1)),
                        b_user_id = u_id current_user, b_parking_lot_id = lot_id lot,
                        parking_spot_id = spot_id spot, vehicle_number = vehicle,
                        in_time = now, out_time = None, cost = None\<rparr>
                 in (Success, d1\<lparr>bookings := bookings d1 @ [new_booking]\<rparr>))
          else (Rendered, d))"

definition app_release_spot :: "db \<Rightarrow> user \<Rightarrow> nat \<Rightarrow> datetime \<Rightarrow> response \<times> db" where
  "app_release_spot d current_user bid now =
     (case get_booking d bid of
        None \<Rightarrow> (Failure NotFound, d)
      | Some booking \<Rightarrow>
          if b_user_id booking \<noteq> u_id current_user then (Failure NotYourBooking, d)
          else case (get_spot d (parking_spot_id booking), get_lot d (b_parking_lot_id booking)) of
            (Some spot, Some lot) \<Rightarrow>
              let out = now;
                  duration_seconds = total_seconds (out - in_time booking);
                  duration_hours = max 0 (duration_seconds / 3600);
                  c = py_round (duration_hours * price_per_hour lot) 2;
                  d1 = update_booking bid (\<lambda>b. b\<lparr>out_time := Some out, cost := Some c\<rparr>) d
              in (Success,
                  update_spot (spot_id spot) (\<lambda>s. s\<lparr>status := Available, user_id := None\<rparr>) d1)
          | _ \<Rightarrow> (Failure ServerError, d))"

text \<open>
  The sort key of \<^verbatim>\<open>app.py\<close> is \<open>int(x.spot_number[1:])\<close>; a spot number it cannot read
  raises \<open>ValueError\<close> out of the view (\<open>None\<close> here).
\<close>

definition app_spots_to_remove :: "parking_lot \<Rightarrow> int \<Rightarrow> db \<Rightarrow> parking_spot list option" where
  "app_spots_to_remove lot new_max_spots d =
     (let available_spots = spots_with_status d (lot_id lot) Available in
      case those (map (\<lambda>x. map_option (\<lambda>k. (k, x)) (py_int (drop 1 (spot_number x))))
                      available_spots) of
        None \<Rightarrow> None
      | Some keyed \<Rightarrow>
          let sorted_desc = map snd (sort_key (\<lambda>kx. - fst kx) keyed);
              spots_to_remove_count = max_no_spots lot - new_max_spots
          in Some (take (nat spots_to_remove_count) sorted_desc))"

definition app_edit_parking_lot ::
  "db \<Rightarrow> user \<Rightarrow> nat \<Rightarrow> http_method \<Rightarrow> lot_form \<Rightarrow> response \<times> db" where
  "app_edit_parking_lot d current_user lid method form =
     (if \<not> is_admin current_user then (Failure Forbidden, d)
      else case get_lot d lid of
        None \<Rightarrow> (Failure NotFound, d)
      | Some lot \<Rightarrow>
          let occupied_spots = int (length (spots_with_status d lid Occupied)) in
          if method = POST then
            let new_max_spots = f_max_no_spots form in
            if new_max_spots < 1 then (Failure InvalidCapacity, d)
            else if new_max_spots < occupied_spots then (Failure CapacityBelowOccupancy, d)
            else if unique_violation d lid form then (Failure ServerError, d)
            else
              let d1 = update_lot lid (set_lot_details form) d;
                  d2 = (if new_max_spots > max_no_spots lot
                        then Some (fold (\<lambda>i. add_spot (''S'' @ py_str i) (lot_id lot))
                                     [max_no_spots lot + 1..new_max_spots] d1)
                        else if new_max_spots < max_no_spots lot
                        then map_option (\<lambda>rm. fold delete_spot rm d1)
                               (app_spots_to_remove lot new_max_spots d1)
                        else Some d1)
              in case d2 of
                   None \<Rightarrow> (Failure ServerError, d)
                 | Some d3 \<Rightarrow> (Success, update_lot lid (\<lambda>l. l\<lparr>max_no_spots := new_max_spots\<rparr>) d3)
          else (Rendered, d))"

section \<open>Runs of requests\<close>

text \<open>
  The two applications serve the same four operations; a run feeds a list of requests to
  one of them, each request working on the database the previous one left.
\<close>

datatype impl = Controllers | App

datatype request =
  CreateLot user http_method lot_form
  | ResizeLot user nat http_method lot_form
  | Reserve user nat http_method string datetime
  | Release user nat datetime

fun handle :: "impl \<Rightarrow> db \<Rightarrow> request \<Rightarrow> response \<times> db" where
  "handle Controllers d (CreateLot u m form) = create_parking_lot d u m form"
| "handle Controllers d (ResizeLot u lid m form) = edit_parking_lot d u lid m form"
| "handle Controllers d (Reserve u lid m vehicle now) = reserve_spot d u lid m vehicle now"
| "handle Controllers d (Release u bid now) = release_spot d u bid now"
| "handle App d (CreateLot u m form) = app_create_parking_lot d u m form"
| "handle App d (ResizeLot u lid m form) = app_edit_parking_lot d u lid m form"
| "handle App d (Reserve u lid m vehicle now) = app_reserve_spot d u lid m vehicle now"
| "handle App d (Release u bid now) = app_release_spot d u bid now"

fun run :: "impl \<Rightarrow> db \<Rightarrow> request list \<Rightarrow> db" where
  "run i d [] = d"
| "run i d (r # rs) = run i (snd (handle i d r)) rs"

section \<open>Notions the properties are stated with\<close>

text \<open>The characters \<open>str\<close> of an integer is made of: the minus sign and the digits.\<close>

definition plain :: "char \<Rightarrow> bool" where
  "plain c = (let k = (of_char c :: nat) in 45 \<le> k \<and> k \<le> 57)"

text \<open>
  The two \<open>release_spot\<close> differ in one place: \<^verbatim>\<open>app.py\<close> clamps the hours with
  \<open>max(0, _)\<close>. This is their common form, for the proofs.
\<close>

definition release_with ::
  "(rat \<Rightarrow> rat) \<Rightarrow> db \<Rightarrow> user \<Rightarrow> nat \<Rightarrow> datetime \<Rightarrow> response \<times> db" where
  "release_with clamp d current_user bid now =
     (case get_booking d bid of
        None \<Rightarrow> (Failure NotFound, d)
      | Some booking \<Rightarrow>
          if b_user_id booking \<noteq> u_id current_user then (Failure NotYourBooking, d)
          else case (get_spot d (parking_spot_id booking), get_lot d (b_parking_lot_id booking)) of
            (Some spot, Some lot) \<Rightarrow>
              (Success,
               update_spot (spot_id spot) (\<lambda>s. s\<lparr>status := Available, user_id := None\<rparr>)
                 (update_booking bid
                    (\<lambda>b. b\<lparr>out_time := Some now,
                            cost := Some (py_round
                              (clamp (total_seconds (now - in_time booking) / 3600)
                               * price_per_hour lot) 2)\<rparr>)
                    d))
          | _ \<Rightarrow> (Failure ServerError, d))"

text \<open>
  A spot survives into a database when a row there has its primary key, status, occupant
  and lot (its number may have changed).
\<close>

definition survives :: "parking_spot \<Rightarrow> db \<Rightarrow> bool" where
  "survives s d' =
     list_ex (\<lambda>s'. spot_id s' = spot_id s \<and> status s' = status s \<and> user_id s' = user_id s
                   \<and> parking_lot_id s' = parking_lot_id s) (spots d')"

text \<open>What the renumbering of the controllers makes of one row.\<close>

definition renumbered :: "nat \<Rightarrow> db \<Rightarrow> parking_spot \<Rightarrow> parking_spot" where
  "renumbered lid d spot =
     (if parking_lot_id spot = lid
      then (case map_of (zip (map spot_id (sort_key get_spot_number (lot_spots d lid)))
                    [1..int (length (sort_key get_spot_number (lot_spots d lid)))]) (spot_id spot) of
              Some i \<Rightarrow> spot\<lparr>spot_number := format_spot_number (PInt i)\<rparr>
            | None \<Rightarrow> spot)
      else spot)"

text \<open>
  The state the controllers keep a database in: distinct spot ids, every spot in a lot
  that exists, and the spots of every lot numbered 1, 2, ... in storage order.
\<close>

definition well_numbered :: "db \<Rightarrow> bool" where
  "well_numbered d =
     (distinct (map spot_id (spots d))
      \<and> list_all (\<lambda>s. parking_lot_id s \<in> set (map lot_id (lots d))) (spots d)
      \<and> list_all (\<lambda>l. map get_spot_number (lot_spots d (lot_id l))
                         = [1..int (length (lot_spots d (lot_id l)))]) (lots d))"

text \<open>The ordinals of a lot's spots are exactly 1, ..., capacity, each once.\<close>

definition ordinals_exact :: "db \<Rightarrow> nat \<Rightarrow> bool" where
  "ordinals_exact d lid =
     (case get_lot d lid of
        None \<Rightarrow> False
      | Some lot \<Rightarrow> sort (map get_spot_number (lot_spots d lid)) = [1..max_no_spots lot])"

subsection \<open>Sample users, forms and databases\<close>

definition admin :: user where
  "admin = \<lparr>u_id = 1, role = ''admin''\<rparr>"

definition driver :: "nat \<Rightarrow> user" where
  "driver k = \<lparr>u_id = k, role = ''user''\<rparr>"

definition lot_of_size :: "int \<Rightarrow> lot_form" where
  "lot_of_size n =
     \<lparr>f_name = ''Central'', f_address = ''1 Main Road'', f_pincode = ''600001'',
      f_price_per_hour = 60, f_max_no_spots = n\<rparr>"

definition hour :: datetime where
  "hour = 3600000000"

text \<open>A lot of one spot, taken by driver 2 at time \<open>t\<close>.\<close>

definition parked_db :: "impl \<Rightarrow> datetime \<Rightarrow> db" where
  "parked_db i t =
     run i empty_db [CreateLot admin POST (lot_of_size 1), Reserve (driver 2) 1 POST ''TN01'' t]"

definition released_db :: "impl \<Rightarrow> db" where
  "released_db i = snd (handle i (parked_db i 0) (Release (driver 2) 1 hour))"

text \<open>A lot of two spots, both taken.\<close>

definition full_db :: "impl \<Rightarrow> db" where
  "full_db i =
     run i empty_db
       [CreateLot admin POST (lot_of_size 2), Reserve (driver 2) 1 POST ''TN01'' 0,
        Reserve (driver 3) 1 POST ''TN02'' 0]"

text \<open>A lot of three spots, filled; then the drivers of S1 and S2 leave.\<close>

definition last_taken :: "request list" where
  "last_taken =
     [CreateLot admin POST (lot_of_size 3),
      Reserve (driver 2) 1 POST ''TN01'' 0, Reserve (driver 3) 1 POST ''TN02'' 0,
      Reserve (driver 4) 1 POST ''TN03'' 0,
      Release (driver 2) 1 hour, Release (driver 3) 2 hour]"

text \<open>... then \<^verbatim>\<open>app.py\<close> shrinks the lot to two spots ...\<close>

definition gap_db :: db where
  "gap_db = run App empty_db (last_taken @ [ResizeLot admin 1 POST (lot_of_size 2)])"

text \<open>
  ... or shrinks it to one spot, grows it to two again, and then the driver of S3 leaves.
\<close>

definition scattered_db :: db where
  "scattered_db =
     run App empty_db
       (last_taken @
        [ResizeLot admin 1 POST (lot_of_size 1), ResizeLot admin 1 POST (lot_of_size 2),
         Release (driver 4) 3 hour])"

section \<open>Decoding what was encoded\<close>

lemma digit_val_digit_char: "d < 10 \<Longrightarrow> digit_val (digit_char d) = Some d"
  by (simp add: digit_val_def digit_char_def Let_def)

lemma digits_value_snoc:
  "digits_value need acc xs = Some v \<Longrightarrow> d < 10 \<Longrightarrow>
   digits_value need acc (xs @ [digit_char d]) = Some (10 * v + d)"
proof (induction xs arbitrary: need acc)
  case Nil
  then show ?case by (simp add: digit_val_digit_char split: if_splits)
next
  case (Cons c cs)
  show ?case
  proof (cases "digit_val c")
    case None
    with Cons.prems have "c = CHR ''_''" "\<not> need" "digits_value True acc cs = Some v"
      by (auto split: if_splits)
    with Cons.IH[of True acc] Cons.prems None show ?thesis by simp
  next
    case (Some e)
    with Cons.prems have "digits_value False (10 * acc + e) cs = Some v" by simp
    with Cons.IH[of False "10 * acc + e"] Cons.prems Some show ?thesis by simp
  qed
qed

lemma digits_value_str_nat: "digits_value True 0 (str_nat n) = Some n"
proof (induction n rule: str_nat.induct)
  case (1 n)
  show ?case
  proof (cases "n < 10")
    case True
    then show ?thesis by (subst str_nat.simps) (simp add: digit_val_digit_char)
  next
    case False
    with 1 have "digits_value True 0 (str_nat (n div 10)) = Some (n div 10)" by simp
    from digits_value_snoc[OF this, of "n mod 10"] False
    show ?thesis by (subst str_nat.simps) simp
  qed
qed

lemma plain_digit_char: "d < 10 \<Longrightarrow> plain (digit_char d)"
  by (simp add: plain_def digit_char_def Let_def)

lemma str_nat_plain: "c \<in> set (str_nat n) \<Longrightarrow> plain c"
proof (induction n rule: str_nat.induct)
  case (1 n)
  show ?case
  proof (cases "n < 10")
    case True
    with "1.prems" show ?thesis by (subst (asm) str_nat.simps) (simp add: plain_digit_char)
  next
    case False
    with "1.prems" have "c \<in> set (str_nat (n div 10)) \<or> c = digit_char (n mod 10)"
      by (subst (asm) str_nat.simps) auto
    with 1 False show ?thesis by (auto simp: plain_digit_char)
  qed
qed

lemma str_nat_nonempty: "str_nat n \<noteq> []"
  by (subst str_nat.simps) simp

lemma py_str_plain: "c \<in> set (py_str i) \<Longrightarrow> plain c"
  by (auto simp: py_str_def plain_def dest: str_nat_plain split: if_splits)

lemma plain_not_space: "plain c \<Longrightarrow> \<not> is_space c"
  by (auto simp: plain_def is_space_def Let_def)

lemma plain_not_S: "plain c \<Longrightarrow> c \<noteq> CHR ''S''"
  by (auto simp: plain_def)

lemma py_upper_plain: "\<forall>c\<in>set s. plain c \<Longrightarrow> py_upper s = s"
  by (induction s) (auto simp: py_upper_def plain_def Let_def)

lemma remove_S_plain: "\<forall>c\<in>set s. plain c \<Longrightarrow> remove_S s = s"
  by (induction s) (auto simp: remove_S_def dest: plain_not_S)

lemma py_strip_plain:
  assumes a: "\<forall>c\<in>set s. plain c"
  shows "py_strip s = s"
proof (cases s rule: rev_cases)
  case Nil
  then show ?thesis by (simp add: py_strip_def)
next
  case (snoc ys y)
  show ?thesis
  proof (cases s)
    case Nil
    then show ?thesis by (simp add: py_strip_def)
  next
    case (Cons x xs)
    with a have "\<not> is_space x" by (simp add: plain_not_space)
    with Cons have 1: "dropWhile is_space s = s" by simp
    from a snoc have "\<not> is_space y" by (simp add: plain_not_space)
    with snoc have 2: "dropWhile is_space (rev s) = rev s" by simp
    show ?thesis by (simp add: py_strip_def 1 2)
  qed
qed

lemma py_int_str_nat: "py_int (str_nat n) = Some (int n)"
proof -
  have p: "\<forall>c\<in>set (str_nat n). plain c" by (auto dest: str_nat_plain)
  obtain c cs where cs: "str_nat n = c # cs"
    using str_nat_nonempty[of n] by (cases "str_nat n") auto
  have d: "digits_value True 0 (c # cs) = Some n" using digits_value_str_nat[of n] cs by simp
  then have "c \<noteq> CHR ''-''" "c \<noteq> CHR ''+''"
    by (auto simp: digit_val_def split: option.splits if_splits)
  moreover have "py_strip (c # cs) = c # cs" using py_strip_plain[OF p] cs by simp
  ultimately show ?thesis
    using d cs by (simp add: py_int_def)
qed

lemma py_int_py_str: "py_int (py_str i) = Some i"
proof (cases "i < 0")
  case False
  then show ?thesis by (simp add: py_str_def py_int_str_nat)
next
  case True
  have p: "\<forall>c\<in>set (py_str i). plain c" by (auto dest: py_str_plain)
  show ?thesis
    unfolding py_int_def py_strip_plain[OF p] using True
    by (simp add: py_str_def digits_value_str_nat)
qed

lemma decode_tagged: "py_int (remove_S (py_upper (CHR ''S'' # py_str i))) = Some i"
proof -
  have p: "\<forall>c\<in>set (py_str i). plain c" by (auto dest: py_str_plain)
  have "py_upper (CHR ''S'' # py_str i) = CHR ''S'' # py_str i"
    using py_upper_plain[OF p] by (simp add: py_upper_def)
  then show ?thesis
    using remove_S_plain[OF p] by (simp add: remove_S_def py_int_py_str)
qed

lemma py_upper_s: "py_upper [CHR ''s''] = py_upper [CHR ''S'']"
  by code_simp

lemma py_upper_tag: "py_upper (CHR ''s'' # rest) = py_upper (CHR ''S'' # rest)"
proof -
  have "py_upper (c # rest) = py_upper [c] @ py_upper rest" for c
    by (simp add: py_upper_def)
  then show ?thesis by (simp add: py_upper_s)
qed

text \<open>
  C8. For every integer \<open>n \<ge> 1\<close>, \<open>get_spot_number\<close> of a spot numbered
  \<open>format_spot_number(n)\<close> is \<open>n\<close>, and the same identifier written with a lowercase
  \<open>s\<close> decodes to \<open>n\<close> too; whatever follows the tag, a lowercase tag decodes like
  the uppercase one.
\<close>

theorem decode_encode_roundtrip:
  assumes "1 \<le> n"
  shows "get_spot_number (spot\<lparr>spot_number := format_spot_number (PInt n)\<rparr>) = n
       \<and> get_spot_number (spot\<lparr>spot_number := CHR ''s'' # py_str n\<rparr>) = n
       \<and> get_spot_number (spot\<lparr>spot_number := CHR ''s'' # rest\<rparr>)
           = get_spot_number (spot\<lparr>spot_number := CHR ''S'' # rest\<rparr>)"
  using decode_tagged[of n]
  by (simp add: get_spot_number_def py_upper_tag)

theorem decode_encode_roundtrip_witness:
  "get_spot_number
     (\<lparr>spot_id = 1, parking_lot_id = 1, spot_number = ''S1'', status = Available,
       user_id = None\<rparr>\<lparr>spot_number := format_spot_number (PInt 12)\<rparr>) = 12
   \<and> get_spot_number
     (\<lparr>spot_id = 1, parking_lot_id = 1, spot_number = ''S1'', status = Available,
       user_id = None\<rparr>\<lparr>spot_number := CHR ''s'' # py_str 12\<rparr>) = 12"
  using decode_encode_roundtrip[of 12
      "\<lparr>spot_id = 1, parking_lot_id = 1, spot_number = ''S1'', status = Available,
        user_id = None\<rparr>" "''12''"]
  by simp

text \<open>
  C9. The claim is that the identifier of \<open>m\<close> sorts before the identifier of \<open>n\<close>
  for all \<open>1 \<le> m < n < 10^6\<close>. The identifiers are not padded: 2 is less than 10,
  and \<open>S10\<close> sorts before \<open>S2\<close>.
\<close>

theorem encode_order_reversed:
  "(2::int) < 10 \<and> format_spot_number (PInt 10) < format_spot_number (PInt 2)
   \<and> \<not> format_spot_number (PInt 2) < format_spot_number (PInt 10)"
  by code_simp

section \<open>Lookups after updates\<close>

lemma release_spot_with: "release_spot = release_with (\<lambda>x. x)"
  by (auto simp: fun_eq_iff release_spot_def release_with_def Let_def split: option.splits)

lemma app_release_spot_with: "app_release_spot = release_with (max 0)"
  by (auto simp: fun_eq_iff app_release_spot_def release_with_def Let_def split: option.splits)

lemma app_reserve_spot_eq: "app_reserve_spot = reserve_spot"
  by (simp add: fun_eq_iff app_reserve_spot_def reserve_spot_def)

lemma find_map_keep:
  "(\<And>x. P (f x) = P x) \<Longrightarrow> find P (map f xs) = map_option f (find P xs)"
  by (induction xs) auto

lemma find_Some_P: "find P xs = Some x \<Longrightarrow> P x"
  by (induction xs) (auto split: if_splits)

lemma get_booking_id: "get_booking d bid = Some b \<Longrightarrow> booking_id b = bid"
  by (auto simp: get_booking_def dest: find_Some_P)

lemma get_spot_id: "get_spot d sid = Some s \<Longrightarrow> spot_id s = sid"
  by (auto simp: get_spot_def dest: find_Some_P)

lemma get_booking_update_spot [simp]: "get_booking (update_spot sid f d) bid = get_booking d bid"
  by (simp add: get_booking_def update_spot_def)

lemma get_lot_update_spot [simp]: "get_lot (update_spot sid f d) lid = get_lot d lid"
  by (simp add: get_lot_def update_spot_def)

lemma get_lot_update_booking [simp]: "get_lot (update_booking bid f d) lid = get_lot d lid"
  by (simp add: get_lot_def update_booking_def)

lemma get_spot_update_booking [simp]: "get_spot (update_booking bid f d) sid = get_spot d sid"
  by (simp add: get_spot_def update_booking_def)

lemma get_booking_update_booking:
  assumes "\<And>b. booking_id (f b) = booking_id b"
  shows "get_booking (update_booking bid f d) bid' =
         map_option (\<lambda>b. if booking_id b = bid then f b else b) (get_booking d bid')"
  unfolding get_booking_def update_booking_def using assms
  by (simp add: find_map_keep)

lemma get_spot_update_spot:
  assumes "\<And>s. spot_id (f s) = spot_id s"
  shows "get_spot (update_spot sid f d) sid' =
         map_option (\<lambda>s. if spot_id s = sid then f s else s) (get_spot d sid')"
  unfolding get_spot_def update_spot_def using assms
  by (simp add: find_map_keep)

lemma release_with_Success:
  assumes "release_with clamp d cu bid now = (Success, d1)"
  obtains b s l where "get_booking d bid = Some b" "b_user_id b = u_id cu"
    "get_spot d (parking_spot_id b) = Some s" "get_lot d (b_parking_lot_id b) = Some l"
    "d1 = update_spot (spot_id s) (\<lambda>s. s\<lparr>status := Available, user_id := None\<rparr>)
            (update_booking bid
               (\<lambda>x. x\<lparr>out_time := Some now,
                       cost := Some (py_round
                         (clamp (total_seconds (now - in_time b) / 3600) * price_per_hour l) 2)\<rparr>) d)"
  using assms unfolding release_with_def
  by (auto split: option.splits if_splits)

lemma release_with_again:
  assumes "release_with clamp d cu bid t1 = (Success, d1)"
  shows "release_with clamp d1 cu bid t2 = (Success, snd (release_with clamp d cu bid t2))"
proof -
  from assms obtain b s l where b: "get_booking d bid = Some b" and o: "b_user_id b = u_id cu"
    and s: "get_spot d (parking_spot_id b) = Some s" and l: "get_lot d (b_parking_lot_id b) = Some l"
    and d1: "d1 = update_spot (spot_id s) (\<lambda>s. s\<lparr>status := Available, user_id := None\<rparr>)
            (update_booking bid
               (\<lambda>x. x\<lparr>out_time := Some t1,
                       cost := Some (py_round
                         (clamp (total_seconds (t1 - in_time b) / 3600) * price_per_hour l) 2)\<rparr>) d)"
    by (rule release_with_Success)
  have bid: "booking_id b = bid" using b by (rule get_booking_id)
  have sid: "spot_id s = parking_spot_id b" using s by (rule get_spot_id)
  have b1: "get_booking d1 bid = Some (b\<lparr>out_time := Some t1,
                       cost := Some (py_round
                         (clamp (total_seconds (t1 - in_time b) / 3600) * price_per_hour l) 2)\<rparr>)"
    unfolding d1 by (simp add: get_booking_update_booking b bid)
  have s1: "get_spot d1 (parking_spot_id b) = Some (s\<lparr>status := Available, user_id := None\<rparr>)"
    unfolding d1 by (simp add: get_spot_update_spot s sid)
  have l1: "get_lot d1 (b_parking_lot_id b) = Some l"
    unfolding d1 by (simp add: l)
  have "release_with clamp d1 cu bid t2 =
      (Success, update_spot (spot_id s) (\<lambda>s. s\<lparr>status := Available, user_id := None\<rparr>)
            (update_booking bid
               (\<lambda>x. x\<lparr>out_time := Some t2,
                       cost := Some (py_round
                         (clamp (total_seconds (t2 - in_time b) / 3600) * price_per_hour l) 2)\<rparr>) d1))"
    by (simp add: release_with_def b1 s1 l1 o)
  moreover have "release_with clamp d cu bid t2 =
      (Success, update_spot (spot_id s) (\<lambda>s. s\<lparr>status := Available, user_id := None\<rparr>)
            (update_booking bid
               (\<lambda>x. x\<lparr>out_time := Some t2,
                       cost := Some (py_round
                         (clamp (total_seconds (t2 - in_time b) / 3600) * price_per_hour l) 2)\<rparr>) d))"
    by (simp add: release_with_def b s l o)
  moreover have "update_spot sid g (update_booking bid h2 (update_spot sid g (update_booking bid h1 d)))
      = update_spot sid g (update_booking bid h2 d)"
    if "\<And>x. g (g x) = g x" "\<And>x. spot_id (g x) = spot_id x" "\<And>x. h2 (h1 x) = h2 x"
       "\<And>x. booking_id (h1 x) = booking_id x"
    for sid g h1 h2
    using that by (simp add: update_spot_def update_booking_def comp_def)
  ultimately show ?thesis unfolding d1 by simp
qed

lemma sorted_hd_min:
  assumes "sorted (map f xs)" and "filter P xs = y # ys" and "x \<in> set (filter P xs)"
  shows "f y \<le> f x"
proof -
  have "sorted (map f (filter P xs))" using assms(1) by (rule sorted_filter)
  with assms(2,3) show ?thesis by auto
qed

lemma spots_with_status_filter:
  "spots_with_status d lid st = filter (\<lambda>s. status s = st) (lot_spots d lid)"
  by (simp add: spots_with_status_def lot_spots_def conj_commute)

section \<open>Reserve\<close>

lemma active_booking_Some:
  assumes "b \<in> set (bookings d)" "b_user_id b = uid" "out_time b = None"
  shows "active_booking d uid \<noteq> None"
  using assms by (auto simp: active_booking_def find_None_iff)

text \<open>
  C10. A user who has an active booking (a booking whose \<open>out_time\<close> is null) gets
  AlreadyParked from \<open>reserve_spot\<close> and the database is unchanged, whatever the lot
  id is: the check comes before the lot is looked up, so a lot that does not exist gives
  AlreadyParked too, not NotFound. Both applications.
\<close>

theorem reserve_already_parked:
  assumes "b \<in> set (bookings d)" and "b_user_id b = u_id cu" and "out_time b = None"
  shows "reserve_spot d cu lid m vehicle now = (Failure AlreadyParked, d)
       \<and> app_reserve_spot d cu lid m vehicle now = (Failure AlreadyParked, d)"
  using active_booking_Some[OF assms]
  by (simp add: reserve_spot_def app_reserve_spot_def)

theorem reserve_already_parked_witness:
  "get_lot (parked_db Controllers 0) 99 = None
   \<and> reserve_spot (parked_db Controllers 0) (driver 2) 99 POST ''TN02'' hour
       = (Failure AlreadyParked, parked_db Controllers 0)
   \<and> get_lot (parked_db App 0) 99 = None
   \<and> app_reserve_spot (parked_db App 0) (driver 2) 99 POST ''TN02'' hour
       = (Failure AlreadyParked, parked_db App 0)"
proof -
  let ?b = "\<lparr>booking_id = 1, b_user_id = 2, b_parking_lot_id = 1, parking_spot_id = 1,
             vehicle_number = ''TN01'', in_time = 0, out_time = None, cost = None\<rparr>"
  have 1: "?b \<in> set (bookings (parked_db Controllers 0))" by code_simp
  have 2: "b_user_id ?b = u_id (driver 2)" by code_simp
  have 3: "out_time ?b = None" by simp
  have 4: "get_lot (parked_db Controllers 0) 99 = None" by code_simp
  have 5: "?b \<in> set (bookings (parked_db App 0))" by code_simp
  have 6: "get_lot (parked_db App 0) 99 = None" by code_simp
  show ?thesis
    using reserve_already_parked[OF 1 2 3, of 99 POST "''TN02''" hour]
          reserve_already_parked[OF 5 2 3, of 99 POST "''TN02''" hour] 4 6
    by simp
qed

section \<open>Release\<close>

text \<open>
  C6, as the code has it. Neither \<open>release_spot\<close> looks at \<open>out_time\<close>: when the
  owner releases a booking a second time the call succeeds again, and leaves the database
  that a single release at the second call's time would have left; the booking's
  \<open>out_time\<close> and \<open>cost\<close> are those of the second call.
\<close>

theorem release_twice_overwrites:
  "(release_spot d cu bid t1 = (Success, d1) \<longrightarrow>
      release_spot d1 cu bid t2 = (Success, snd (release_spot d cu bid t2))
    \<and> (\<exists>b l. get_booking d bid = Some b \<and> get_lot d (b_parking_lot_id b) = Some l
         \<and> get_booking (snd (release_spot d1 cu bid t2)) bid
             = Some (b\<lparr>out_time := Some t2,
                        cost := Some (py_round
                          (total_seconds (t2 - in_time b) / 3600 * price_per_hour l) 2)\<rparr>)))
 \<and> (app_release_spot d cu bid t1 = (Success, d1) \<longrightarrow>
      app_release_spot d1 cu bid t2 = (Success, snd (app_release_spot d cu bid t2))
    \<and> (\<exists>b l. get_booking d bid = Some b \<and> get_lot d (b_parking_lot_id b) = Some l
         \<and> get_booking (snd (app_release_spot d1 cu bid t2)) bid
             = Some (b\<lparr>out_time := Some t2,
                        cost := Some (py_round
                          (max 0 (total_seconds (t2 - in_time b) / 3600) * price_per_hour l) 2)\<rparr>)))"
proof -
  have main: "release_with clamp d1 cu bid t2 = (Success, snd (release_with clamp d cu bid t2))
    \<and> (\<exists>b l. get_booking d bid = Some b \<and> get_lot d (b_parking_lot_id b) = Some l
         \<and> get_booking (snd (release_with clamp d1 cu bid t2)) bid
             = Some (b\<lparr>out_time := Some t2,
                        cost := Some (py_round
                          (clamp (total_seconds (t2 - in_time b) / 3600) * price_per_hour l) 2)\<rparr>))"
    if first: "release_with clamp d cu bid t1 = (Success, d1)" for clamp
  proof -
    from first obtain b s l where b: "get_booking d bid = Some b" and o: "b_user_id b = u_id cu"
      and s: "get_spot d (parking_spot_id b) = Some s"
      and l: "get_lot d (b_parking_lot_id b) = Some l"
      by (rule release_with_Success)
    have again: "release_with clamp d1 cu bid t2 = (Success, snd (release_with clamp d cu bid t2))"
      using first by (rule release_with_again)
    have "get_booking (snd (release_with clamp d cu bid t2)) bid
             = Some (b\<lparr>out_time := Some t2,
                        cost := Some (py_round
                          (clamp (total_seconds (t2 - in_time b) / 3600) * price_per_hour l) 2)\<rparr>)"
      using get_booking_id[OF b]
      by (simp add: release_with_def b o s l get_booking_update_booking)
    with again b l show ?thesis by simp
  qed
  show ?thesis
    unfolding release_spot_with app_release_spot_with
    using main[of "\<lambda>x. x"] main[of "max 0"]
    by blast
qed

theorem release_twice_overwrites_witness:
  "release_spot (released_db Controllers) (driver 2) 1 (2 * hour)
     = (Success, snd (release_spot (parked_db Controllers 0) (driver 2) 1 (2 * hour)))
   \<and> app_release_spot (released_db App) (driver 2) 1 (2 * hour)
     = (Success, snd (app_release_spot (parked_db App 0) (driver 2) 1 (2 * hour)))"
proof -
  have 1: "release_spot (parked_db Controllers 0) (driver 2) 1 hour
             = (Success, released_db Controllers)"
    by code_simp
  have 2: "app_release_spot (parked_db App 0) (driver 2) 1 hour = (Success, released_db App)"
    by code_simp
  from release_twice_overwrites[of "parked_db Controllers 0" "driver 2" 1 hour
      "released_db Controllers" "2 * hour"] 1
  have a: "release_spot (released_db Controllers) (driver 2) 1 (2 * hour)
     = (Success, snd (release_spot (parked_db Controllers 0) (driver 2) 1 (2 * hour)))"
    by blast
  from release_twice_overwrites[of "parked_db App 0" "driver 2" 1 hour
      "released_db App" "2 * hour"] 2
  have b: "app_release_spot (released_db App) (driver 2) 1 (2 * hour)
     = (Success, snd (app_release_spot (parked_db App 0) (driver 2) 1 (2 * hour)))"
    by blast
  from a b show ?thesis by simp
qed

text \<open>
  The claim says the second call fails with AlreadyReleased and recomputes nothing. Driver
  2 parks at time 0 at 60 an hour and releases after one hour: the cost is 60. The same
  release one hour later succeeds and the cost is 120.
\<close>

theorem release_twice_counterexample:
  "fst (release_spot (parked_db Controllers 0) (driver 2) 1 hour) = Success
   \<and> map out_time (bookings (released_db Controllers)) = [Some hour]
   \<and> map cost (bookings (released_db Controllers)) = [Some 60]
   \<and> fst (release_spot (released_db Controllers) (driver 2) 1 (2 * hour)) = Success
   \<and> fst (release_spot (released_db Controllers) (driver 2) 1 (2 * hour)) \<noteq> Failure AlreadyReleased
   \<and> map out_time (bookings (snd (release_spot (released_db Controllers) (driver 2) 1 (2 * hour))))
       = [Some (2 * hour)]
   \<and> map cost (bookings (snd (release_spot (released_db Controllers) (driver 2) 1 (2 * hour))))
       = [Some 120]
   \<and> fst (app_release_spot (released_db App) (driver 2) 1 (2 * hour)) = Success
   \<and> map cost (bookings (snd (app_release_spot (released_db App) (driver 2) 1 (2 * hour))))
       = [Some 120]"
  by code_simp

text \<open>
  C7. The claim is that a release clamps the duration at zero, so that the cost is never
  negative, also when the clock reads earlier than \<open>in_time\<close>. \<open>release_spot\<close> of
  \<^verbatim>\<open>parking_app/controllers.py\<close> does not clamp: a booking with \<open>in_time\<close> 12:00:00
  released at a clock reading of 07:00:00, at 60 an hour, costs -300. \<^verbatim>\<open>app.py\<close> charges
  0 for the same release.
\<close>

theorem release_negative_cost:
  "fst (release_spot (parked_db Controllers (12 * hour)) (driver 2) 1 (7 * hour)) = Success
   \<and> map in_time (bookings (parked_db Controllers (12 * hour))) = [12 * hour]
   \<and> map cost (bookings (snd (release_spot (parked_db Controllers (12 * hour)) (driver 2) 1 (7 * hour))))
       = [Some (- 300)]
   \<and> map cost (bookings (snd (app_release_spot (parked_db App (12 * hour)) (driver 2) 1 (7 * hour))))
       = [Some 0]"
  by code_simp

text \<open>The release of \<^verbatim>\<open>app.py\<close> never charges less than zero at a price that is not negative.\<close>

lemma py_round_nonneg:
  assumes "0 \<le> x"
  shows "0 \<le> py_round x n"
proof -
  have "0 \<le> x * 10 ^ n" using assms by simp
  then have "0 \<le> \<lfloor>x * 10 ^ n\<rfloor>" by simp
  then show ?thesis
    by (simp add: py_round_def Let_def)
qed

lemma app_release_cost_nonneg:
  assumes "app_release_spot d cu bid now = (Success, d')" and "get_booking d bid = Some b"
    and "get_lot d (b_parking_lot_id b) = Some l" and "0 \<le> price_per_hour l"
  shows "\<exists>b'. get_booking d' bid = Some b' \<and> out_time b' = Some now
           \<and> (\<exists>c. cost b' = Some c \<and> 0 \<le> c)"
proof -
  from assms(1) obtain b0 s l0 where b0: "get_booking d bid = Some b0"
    and "b_user_id b0 = u_id cu" and "get_spot d (parking_spot_id b0) = Some s"
    and l0: "get_lot d (b_parking_lot_id b0) = Some l0"
    and d': "d' = update_spot (spot_id s) (\<lambda>s. s\<lparr>status := Available, user_id := None\<rparr>)
            (update_booking bid
               (\<lambda>x. x\<lparr>out_time := Some now,
                       cost := Some (py_round
                         (max 0 (total_seconds (now - in_time b0) / 3600) * price_per_hour l0) 2)\<rparr>) d)"
    unfolding app_release_spot_with by (rule release_with_Success)
  from b0 l0 assms(2,3) have eq: "b0 = b" "l0 = l" by simp_all
  have "0 \<le> max 0 (total_seconds (now - in_time b) / 3600) * price_per_hour l"
    using assms(4) by simp
  then have "0 \<le> py_round (max 0 (total_seconds (now - in_time b) / 3600) * price_per_hour l) 2"
    by (rule py_round_nonneg)
  then show ?thesis
    using get_booking_id[OF assms(2)]
    unfolding d' eq by (simp add: get_booking_update_booking assms(2))
qed


section \<open>Resize\<close>

text \<open>
  C3, as the code has it. When the new capacity is below the number of Occupied spots,
  \<open>edit_parking_lot\<close> fails and changes nothing: no lot, spot or booking. The failure
  is CapacityBelowOccupancy, except that \<^verbatim>\<open>app.py\<close> checks \<open>new_max_spots < 1\<close>
  first and answers InvalidCapacity for such a capacity.
\<close>

theorem resize_below_occupancy:
  assumes "is_admin cu" and "get_lot d lid = Some lot"
    and "f_max_no_spots form < int (length (spots_with_status d lid Occupied))"
  shows "edit_parking_lot d cu lid POST form = (Failure CapacityBelowOccupancy, d)
       \<and> app_edit_parking_lot d cu lid POST form
           = (Failure (if f_max_no_spots form < 1 then InvalidCapacity
                       else CapacityBelowOccupancy), d)"
  using assms by (simp add: edit_parking_lot_def app_edit_parking_lot_def Let_def)

theorem resize_below_occupancy_witness:
  "edit_parking_lot (full_db Controllers) admin 1 POST (lot_of_size 1)
     = (Failure CapacityBelowOccupancy, full_db Controllers)
   \<and> app_edit_parking_lot (full_db Controllers) admin 1 POST (lot_of_size 1)
     = (Failure CapacityBelowOccupancy, full_db Controllers)"
proof -
  have 1: "is_admin admin" by code_simp
  have 2: "get_lot (full_db Controllers) 1 =
     Some \<lparr>lot_id = 1, name = ''Central'', address = ''1 Main Road'', pincode = ''600001'',
           price_per_hour = 60, max_no_spots = 2\<rparr>" by code_simp
  have 3: "f_max_no_spots (lot_of_size 1)
           < int (length (spots_with_status (full_db Controllers) 1 Occupied))" by code_simp
  have 4: "\<not> f_max_no_spots (lot_of_size 1) < 1" by code_simp
  show ?thesis using resize_below_occupancy[OF 1 2 3] 4 by simp
qed

text \<open>
  The claim says CapacityBelowOccupancy for every capacity below the occupancy. A lot
  with one Occupied spot and a new capacity of 0: \<^verbatim>\<open>app.py\<close> answers InvalidCapacity.
\<close>

theorem resize_below_occupancy_counterexample:
  "f_max_no_spots (lot_of_size 0) < int (length (spots_with_status (parked_db App 0) 1 Occupied))
   \<and> fst (app_edit_parking_lot (parked_db App 0) admin 1 POST (lot_of_size 0)) = Failure InvalidCapacity
   \<and> fst (app_edit_parking_lot (parked_db App 0) admin 1 POST (lot_of_size 0))
       \<noteq> Failure CapacityBelowOccupancy"
  by code_simp

subsection \<open>Primary keys stay distinct\<close>

lemma spots_update_lot [simp]: "spots (update_lot lid f d) = spots d"
  by (simp add: update_lot_def)

lemma spots_update_booking [simp]: "spots (update_booking bid f d) = spots d"
  by (simp add: update_booking_def)

lemma ids_update_spot:
  "(\<And>s. spot_id (f s) = spot_id s) \<Longrightarrow>
   map spot_id (spots (update_spot sid f d)) = map spot_id (spots d)"
  by (simp add: update_spot_def)

lemma fold_max_ge: "(a::nat) \<le> fold max ids a"
proof (induction ids arbitrary: a)
  case Nil
  show ?case by simp
next
  case (Cons x xs)
  have "max x a \<le> fold max xs (max x a)" by (rule Cons.IH)
  then show ?case by simp
qed

lemma fold_max_upper: "x \<in> set ids \<Longrightarrow> (x::nat) \<le> fold max ids a"
proof (induction ids arbitrary: a)
  case Nil
  then show ?case by simp
next
  case (Cons y ys)
  show ?case
  proof (cases "x = y")
    case True
    have "max y a \<le> fold max ys (max y a)" by (rule fold_max_ge)
    with True show ?thesis by simp
  next
    case False
    with Cons.prems have "x \<in> set ys" by simp
    then have "x \<le> fold max ys (max y a)" by (rule Cons.IH)
    then show ?thesis by simp
  qed
qed

lemma next_id_fresh: "next_id ids \<notin> set ids"
proof
  assume "next_id ids \<in> set ids"
  then have "next_id ids \<le> fold max ids 0" by (rule fold_max_upper)
  then show False by (simp add: next_id_def)
qed

lemma distinct_add_spot:
  "distinct (map spot_id (spots d)) \<Longrightarrow> distinct (map spot_id (spots (add_spot number lid d)))"
  using next_id_fresh[of "map spot_id (spots d)"] by (simp add: add_spot_def)

lemma distinct_fold_add_spot:
  "distinct (map spot_id (spots d)) \<Longrightarrow>
   distinct (map spot_id (spots (fold (\<lambda>i. add_spot (g i) lid) js d)))"
  by (induction js arbitrary: d) (simp_all add: distinct_add_spot)

lemma spots_fold_delete_spot:
  "spots (fold delete_spot rm d) = filter (\<lambda>s. spot_id s \<notin> spot_id ` set rm) (spots d)"
proof (induction rm arbitrary: d)
  case Nil
  show ?case by simp
next
  case (Cons r rs)
  have "spots (delete_spot r d) = filter (\<lambda>s. spot_id s \<noteq> spot_id r) (spots d)"
    by (simp add: delete_spot_def)
  with Cons.IH[of "delete_spot r d"] show ?case by (simp add: conj_commute)
qed

lemma distinct_fold_delete_spot:
  "distinct (map spot_id (spots d)) \<Longrightarrow> distinct (map spot_id (spots (fold delete_spot rm d)))"
  by (simp add: spots_fold_delete_spot distinct_map_filter)

lemma ids_normalize [simp]:
  "map spot_id (spots (normalize_spot_numbers lid d)) = map spot_id (spots d)"
  by (simp add: normalize_spot_numbers_def)

lemma ids_renumber [simp]: "map spot_id (spots (renumber lid d)) = map spot_id (spots d)"
  by (auto simp: renumber_def Let_def split: option.splits)

lemma distinct_create:
  "distinct (map spot_id (spots d)) \<Longrightarrow>
   distinct (map spot_id (spots (snd (create_parking_lot d u m form))))"
  by (simp add: create_parking_lot_def Let_def distinct_fold_add_spot)

lemma distinct_app_create:
  "distinct (map spot_id (spots d)) \<Longrightarrow>
   distinct (map spot_id (spots (snd (app_create_parking_lot d u m form))))"
  by (simp add: app_create_parking_lot_def Let_def distinct_fold_add_spot)

lemma distinct_reserve:
  "distinct (map spot_id (spots d)) \<Longrightarrow>
   distinct (map spot_id (spots (snd (reserve_spot d u lid m v now))))"
  by (simp add: reserve_spot_def Let_def ids_update_spot split: option.splits list.splits)

lemma distinct_release_with:
  "distinct (map spot_id (spots d)) \<Longrightarrow>
   distinct (map spot_id (spots (snd (release_with clamp d u bid now))))"
  by (simp add: release_with_def ids_update_spot split: option.splits)

lemma distinct_grow:
  "distinct (map spot_id (spots d)) \<Longrightarrow> distinct (map spot_id (spots (grow_spots lot n d)))"
  by (simp add: grow_spots_def Let_def distinct_fold_add_spot)

lemma distinct_edit:
  assumes "distinct (map spot_id (spots d))"
  shows "distinct (map spot_id (spots (snd (edit_parking_lot d u lid m form))))"
  using assms
  by (simp add: edit_parking_lot_def Let_def shrink_spots_def distinct_grow
        distinct_fold_delete_spot split: option.splits)

lemma distinct_app_edit:
  assumes "distinct (map spot_id (spots d))"
  shows "distinct (map spot_id (spots (snd (app_edit_parking_lot d u lid m form))))"
  using assms
  by (auto simp: app_edit_parking_lot_def Let_def distinct_fold_add_spot
        distinct_fold_delete_spot split: option.splits)

lemma distinct_handle:
  assumes "distinct (map spot_id (spots d))"
  shows "distinct (map spot_id (spots (snd (handle i d r))))"
proof (cases i)
  case Controllers
  with assms show ?thesis
    by (cases r) (simp_all add: distinct_create distinct_edit distinct_reserve
        release_spot_with distinct_release_with)
next
  case App
  with assms show ?thesis
    by (cases r) (simp_all add: distinct_app_create distinct_app_edit distinct_reserve
        app_reserve_spot_eq app_release_spot_with distinct_release_with)
qed

lemma distinct_run:
  "distinct (map spot_id (spots d)) \<Longrightarrow> distinct (map spot_id (spots (run i d rs)))"
  by (induction rs arbitrary: d) (simp_all add: distinct_handle)

subsection \<open>What a resize removes\<close>

lemma spots_to_remove_available:
  assumes "r \<in> set (spots_to_remove lot n d)"
  shows "r \<in> set (spots d) \<and> status r = Available"
proof -
  let ?av = "filter (\<lambda>spot. status spot = Available)
               (sort_key get_spot_number (lot_spots d (lot_id lot)))"
  from assms have "r \<in> set (take (nat (int (length ?av)
        - (n - int (length (filter (\<lambda>spot. status spot = Occupied)
             (sort_key get_spot_number (lot_spots d (lot_id lot))))))))
        (sort_key (\<lambda>spot. - get_spot_number spot) ?av))"
    by (simp add: spots_to_remove_def Let_def split: if_splits)
  then have "r \<in> set (sort_key (\<lambda>spot. - get_spot_number spot) ?av)"
    by (rule in_set_takeD)
  then show ?thesis by (simp add: lot_spots_def)
qed

lemma those_keyed:
  "those (map (\<lambda>x. map_option (\<lambda>k. (k, x)) (key x)) xs) = Some keyed \<Longrightarrow> map snd keyed = xs"
proof (induction xs arbitrary: keyed)
  case Nil
  then show ?case by simp
next
  case (Cons x xs)
  then show ?case by (auto split: option.splits)
qed

lemma app_spots_to_remove_available:
  assumes "app_spots_to_remove lot n d = Some rm" and "r \<in> set rm"
  shows "r \<in> set (spots d) \<and> status r = Available"
proof -
  let ?av = "spots_with_status d (lot_id lot) Available"
  from assms(1) obtain keyed where
    k: "those (map (\<lambda>x. map_option (\<lambda>k. (k, x)) (py_int (drop 1 (spot_number x)))) ?av)
          = Some keyed"
    and rm: "rm = take (nat (max_no_spots lot - n)) (map snd (sort_key (\<lambda>kx. - fst kx) keyed))"
    by (auto simp: app_spots_to_remove_def Let_def split: option.splits)
  from assms(2) rm have "r \<in> set (map snd (sort_key (\<lambda>kx. - fst kx) keyed))"
    by (auto dest: in_set_takeD)
  then have "r \<in> set (map snd keyed)" by simp
  with those_keyed[OF k] have "r \<in> set ?av" by simp
  then show ?thesis by (simp add: spots_with_status_def)
qed

subsection \<open>Occupied spots survive a resize\<close>

lemma survivesI:
  "s' \<in> set (spots d') \<Longrightarrow> spot_id s' = spot_id s \<Longrightarrow> status s' = status s \<Longrightarrow>
   user_id s' = user_id s \<Longrightarrow> parking_lot_id s' = parking_lot_id s \<Longrightarrow> survives s d'"
  by (auto simp: survives_def list_ex_iff)

lemma survives_self: "s \<in> set (spots d) \<Longrightarrow> survives s d"
  by (rule survivesI) simp_all

lemma survives_spots_eq: "spots d' = spots d \<Longrightarrow> survives s d' = survives s d"
  by (simp add: survives_def)

lemma survives_map:
  assumes "survives s d" and "spots d' = map g (spots d)"
    and "\<And>x. spot_id (g x) = spot_id x \<and> status (g x) = status x \<and> user_id (g x) = user_id x
             \<and> parking_lot_id (g x) = parking_lot_id x"
  shows "survives s d'"
proof -
  from assms(1) obtain x where x: "x \<in> set (spots d)" "spot_id x = spot_id s"
    "status x = status s" "user_id x = user_id s" "parking_lot_id x = parking_lot_id s"
    by (auto simp: survives_def list_ex_iff)
  have "g x \<in> set (spots d')" using x(1) assms(2) by simp
  then show ?thesis using x assms(3)[of x] by (intro survivesI[of "g x"]) simp_all
qed

lemma survives_add_spot: "survives s d \<Longrightarrow> survives s (add_spot number lid d)"
  by (auto simp: survives_def list_ex_iff add_spot_def)

lemma survives_fold_add_spot:
  "survives s d \<Longrightarrow> survives s (fold (\<lambda>i. add_spot (g i) lid) js d)"
  by (induction js arbitrary: d) (simp_all add: survives_add_spot)

lemma survives_normalize: "survives s d \<Longrightarrow> survives s (normalize_spot_numbers lid d)"
  by (erule survives_map[where g = "\<lambda>spot. if parking_lot_id spot = lid
        then spot\<lparr>spot_number := format_spot_number (PStr (spot_number spot))\<rparr> else spot"])
     (simp_all add: normalize_spot_numbers_def)

lemma survives_renumber: "survives s d \<Longrightarrow> survives s (renumber lid d)"
  by (erule survives_map[where g = "\<lambda>spot. if parking_lot_id spot = lid
        then (case map_of (zip (map spot_id (sort_key get_spot_number (lot_spots d lid)))
                    [1..int (length (sort_key get_spot_number (lot_spots d lid)))]) (spot_id spot) of
                Some i \<Rightarrow> spot\<lparr>spot_number := format_spot_number (PInt i)\<rparr>
              | None \<Rightarrow> spot)
        else spot"])
     (simp_all add: renumber_def Let_def split: option.splits)

lemma survives_grow: "survives s d \<Longrightarrow> survives s (grow_spots lot n d)"
  by (simp add: grow_spots_def Let_def survives_fold_add_spot survives_normalize)

lemma distinct_ids_eq:
  assumes "distinct (map spot_id (spots d))" and "x \<in> set (spots d)" and "y \<in> set (spots d)"
    and "spot_id x = spot_id y"
  shows "x = y"
  using assms by (meson distinct_map inj_onD)

lemma survives_delete:
  assumes dist: "distinct (map spot_id (spots d))" and s: "s \<in> set (spots d)"
    and occ: "status s = Occupied"
    and rm: "\<And>r. r \<in> set rm \<Longrightarrow> r \<in> set (spots d) \<and> status r = Available"
  shows "s \<in> set (spots (fold delete_spot rm d))"
proof -
  have "spot_id s \<notin> spot_id ` set rm"
  proof
    assume "spot_id s \<in> spot_id ` set rm"
    then obtain r where r: "r \<in> set rm" "spot_id s = spot_id r" by auto
    with rm[of r] have "r \<in> set (spots d)" "status r = Available" by simp_all
    with distinct_ids_eq[OF dist s this(1) r(2)] occ show False by simp
  qed
  with s show ?thesis by (simp add: spots_fold_delete_spot)
qed

lemma edit_parking_lot_unchanged_or_resized:
  "snd (edit_parking_lot d u lid m form) = d
   \<or> (\<exists>lot. get_lot d lid = Some lot
        \<and> snd (edit_parking_lot d u lid m form)
            = renumber lid
                (update_lot lid (\<lambda>l. l\<lparr>max_no_spots := f_max_no_spots form\<rparr>)
                   (if f_max_no_spots form > max_no_spots lot
                    then grow_spots lot (f_max_no_spots form)
                           (update_lot lid (set_lot_details form) d)
                    else if f_max_no_spots form < max_no_spots lot
                    then shrink_spots lot (f_max_no_spots form)
                           (update_lot lid (set_lot_details form) d)
                    else update_lot lid (set_lot_details form) d)))"
proof (cases "is_admin u")
  case False
  then show ?thesis by (simp add: edit_parking_lot_def)
next
  case admin: True
  show ?thesis
  proof (cases "get_lot d lid")
    case None
    with admin show ?thesis by (simp add: edit_parking_lot_def)
  next
    case (Some lot)
    show ?thesis
    proof (cases "m = POST")
      case False
      with admin Some show ?thesis by (simp add: edit_parking_lot_def Let_def)
    next
      case post: True
      show ?thesis
      proof (cases "f_max_no_spots form < int (length (spots_with_status d lid Occupied))")
        case True
        with admin Some post show ?thesis by (simp add: edit_parking_lot_def Let_def)
      next
        case False
        with admin Some post have "snd (edit_parking_lot d u lid m form)
            = renumber lid
                (update_lot lid (\<lambda>l. l\<lparr>max_no_spots := f_max_no_spots form\<rparr>)
                   (if f_max_no_spots form > max_no_spots lot
                    then grow_spots lot (f_max_no_spots form)
                           (update_lot lid (set_lot_details form) d)
                    else if f_max_no_spots form < max_no_spots lot
                    then shrink_spots lot (f_max_no_spots form)
                           (update_lot lid (set_lot_details form) d)
                    else update_lot lid (set_lot_details form) d))"
          by (simp only: edit_parking_lot_def Let_def simp_thms if_True if_False option.case
              snd_conv)
        with Some show ?thesis by blast
      qed
    qed
  qed
qed

lemma edit_keeps_occupied:
  assumes dist: "distinct (map spot_id (spots d))" and s: "s \<in> set (spots d)"
    and occ: "status s = Occupied"
  shows "survives s (snd (edit_parking_lot d u lid m form))"
proof -
  let ?n = "f_max_no_spots form"
  let ?d1 = "update_lot lid (set_lot_details form) d"
  have s1: "s \<in> set (spots ?d1)" using s by simp
  have d1: "distinct (map spot_id (spots ?d1))" using dist by simp
  have d2: "survives s (if ?n > max_no_spots lot then grow_spots lot ?n ?d1
             else if ?n < max_no_spots lot then shrink_spots lot ?n ?d1 else ?d1)" for lot
  proof (cases "?n > max_no_spots lot")
    case True
    then show ?thesis using s1 by (simp add: survives_grow survives_self)
  next
    case False
    show ?thesis
    proof (cases "?n < max_no_spots lot")
      case True
      have "s \<in> set (spots (fold delete_spot (spots_to_remove lot ?n ?d1) ?d1))"
        using d1 s1 occ by (rule survives_delete) (rule spots_to_remove_available)
      with True False show ?thesis by (simp add: shrink_spots_def survives_self)
    next
      case False
      with \<open>\<not> ?n > max_no_spots lot\<close> s1 show ?thesis by (simp add: survives_self)
    qed
  qed
  from edit_parking_lot_unchanged_or_resized[of d u lid m form]
  show ?thesis
  proof (elim disjE exE conjE)
    assume "snd (edit_parking_lot d u lid m form) = d"
    with s show ?thesis by (simp add: survives_self)
  next
    fix lot
    assume res: "snd (edit_parking_lot d u lid m form) =
      renumber lid (update_lot lid (\<lambda>l. l\<lparr>max_no_spots := ?n\<rparr>)
        (if ?n > max_no_spots lot then grow_spots lot ?n ?d1
         else if ?n < max_no_spots lot then shrink_spots lot ?n ?d1 else ?d1))"
    have "survives s (update_lot lid (\<lambda>l. l\<lparr>max_no_spots := ?n\<rparr>)
        (if ?n > max_no_spots lot then grow_spots lot ?n ?d1
         else if ?n < max_no_spots lot then shrink_spots lot ?n ?d1 else ?d1))"
      using d2[of lot] by (simp only: survives_spots_eq[OF spots_update_lot])
    then show ?thesis unfolding res by (rule survives_renumber)
  qed
qed

lemma app_edit_parking_lot_unchanged_or_resized:
  "snd (app_edit_parking_lot d u lid m form) = d
   \<or> (\<exists>lot d2. get_lot d lid = Some lot
        \<and> snd (app_edit_parking_lot d u lid m form)
            = update_lot lid (\<lambda>l. l\<lparr>max_no_spots := f_max_no_spots form\<rparr>) d2
        \<and> (d2 = fold (\<lambda>i. add_spot (''S'' @ py_str i) (lot_id lot))
                    [max_no_spots lot + 1..f_max_no_spots form]
                    (update_lot lid (set_lot_details form) d)
           \<or> (\<exists>rm. app_spots_to_remove lot (f_max_no_spots form)
                        (update_lot lid (set_lot_details form) d) = Some rm
                  \<and> d2 = fold delete_spot rm (update_lot lid (set_lot_details form) d))
           \<or> d2 = update_lot lid (set_lot_details form) d))"
proof (cases "is_admin u")
  case False
  then show ?thesis by (simp add: app_edit_parking_lot_def)
next
  case admin: True
  show ?thesis
  proof (cases "get_lot d lid")
    case None
    with admin show ?thesis by (simp add: app_edit_parking_lot_def)
  next
    case (Some lot)
    let ?n = "f_max_no_spots form"
    let ?d1 = "update_lot lid (set_lot_details form) d"
    show ?thesis
    proof (cases "m = POST \<and> \<not> ?n < 1
        \<and> \<not> ?n < int (length (spots_with_status d lid Occupied)) \<and> \<not> unique_violation d lid form")
      case False
      with admin Some show ?thesis by (auto simp: app_edit_parking_lot_def Let_def)
    next
      case ok: True
      show ?thesis
      proof (cases "?n > max_no_spots lot")
        case True
        with admin Some ok have "snd (app_edit_parking_lot d u lid m form)
            = update_lot lid (\<lambda>l. l\<lparr>max_no_spots := ?n\<rparr>)
                (fold (\<lambda>i. add_spot (''S'' @ py_str i) (lot_id lot)) [max_no_spots lot + 1..?n] ?d1)"
          by (simp add: app_edit_parking_lot_def Let_def)
        with Some show ?thesis by blast
      next
        case False
        show ?thesis
        proof (cases "?n < max_no_spots lot")
          case shrink: True
          show ?thesis
          proof (cases "app_spots_to_remove lot ?n ?d1")
            case None
            with admin Some ok False shrink have "snd (app_edit_parking_lot d u lid m form) = d"
              by (simp add: app_edit_parking_lot_def Let_def)
            then show ?thesis by blast
          next
            case (Some rm)
            with admin \<open>get_lot d lid = Some lot\<close> ok False shrink
            have "snd (app_edit_parking_lot d u lid m form)
                = update_lot lid (\<lambda>l. l\<lparr>max_no_spots := ?n\<rparr>) (fold delete_spot rm ?d1)"
              by (simp add: app_edit_parking_lot_def Let_def)
            with Some \<open>get_lot d lid = Some lot\<close> show ?thesis by blast
          qed
        next
          case same: False
          with admin Some ok False have "snd (app_edit_parking_lot d u lid m form)
                = update_lot lid (\<lambda>l. l\<lparr>max_no_spots := ?n\<rparr>) ?d1"
            by (simp add: app_edit_parking_lot_def Let_def)
          with Some show ?thesis by blast
        qed
      qed
    qed
  qed
qed

lemma app_edit_keeps_occupied:
  assumes dist: "distinct (map spot_id (spots d))" and s: "s \<in> set (spots d)"
    and occ: "status s = Occupied"
  shows "s \<in> set (spots (snd (app_edit_parking_lot d u lid m form)))"
proof -
  let ?d1 = "update_lot lid (set_lot_details form) d"
  have s1: "s \<in> set (spots ?d1)" using s by simp
  have d1: "distinct (map spot_id (spots ?d1))" using dist by simp
  have add: "s \<in> set (spots (fold (\<lambda>i. add_spot (g i) l) js d0))" if "s \<in> set (spots d0)"
    for g l js d0
    using that by (induction js arbitrary: d0) (simp_all add: add_spot_def)
  from app_edit_parking_lot_unchanged_or_resized[of d u lid m form]
  show ?thesis
  proof (elim disjE exE conjE)
    assume "snd (app_edit_parking_lot d u lid m form) = d"
    with s show ?thesis by simp
  next
    fix lot d2
    assume "snd (app_edit_parking_lot d u lid m form)
              = update_lot lid (\<lambda>l. l\<lparr>max_no_spots := f_max_no_spots form\<rparr>) d2"
      and "d2 = fold (\<lambda>i. add_spot (''S'' @ py_str i) (lot_id lot))
                    [max_no_spots lot + 1..f_max_no_spots form] ?d1"
    with add[OF s1] show ?thesis by simp
  next
    fix lot d2 rm
    assume res: "snd (app_edit_parking_lot d u lid m form)
              = update_lot lid (\<lambda>l. l\<lparr>max_no_spots := f_max_no_spots form\<rparr>) d2"
      and rm: "app_spots_to_remove lot (f_max_no_spots form) ?d1 = Some rm"
      and d2: "d2 = fold delete_spot rm ?d1"
    have "s \<in> set (spots (fold delete_spot rm ?d1))"
      using d1 s1 occ by (rule survives_delete) (rule app_spots_to_remove_available[OF rm])
    with res d2 show ?thesis by simp
  next
    fix lot d2
    assume "snd (app_edit_parking_lot d u lid m form)
              = update_lot lid (\<lambda>l. l\<lparr>max_no_spots := f_max_no_spots form\<rparr>) d2"
      and "d2 = ?d1"
    with s1 show ?thesis by simp
  qed
qed

text \<open>
  C2. In a database reached by any requests (Reserve, Release, ResizeLot, CreateLot) from
  one whose spot ids are distinct, a spot that is Occupied survives every resize, with its
  occupant; and every spot either \<open>edit_parking_lot\<close> marks for deletion is Available.
\<close>

theorem resize_never_deletes_occupied:
  assumes "distinct (map spot_id (spots d0))" and "d = run i d0 requests"
    and "s \<in> set (spots d)" and "status s = Occupied"
  shows "survives s (snd (handle i d (ResizeLot u lid m form)))
       \<and> (\<forall>lot n. \<forall>r\<in>set (spots_to_remove lot n d). status r = Available)
       \<and> (\<forall>lot n rm. app_spots_to_remove lot n d = Some rm \<longrightarrow> (\<forall>r\<in>set rm. status r = Available))"
proof -
  have dist: "distinct (map spot_id (spots d))"
    using assms(1,2) by (simp add: distinct_run)
  have "survives s (snd (handle i d (ResizeLot u lid m form)))"
  proof (cases i)
    case Controllers
    then show ?thesis using edit_keeps_occupied[OF dist assms(3,4)] by simp
  next
    case App
    then show ?thesis
      using app_edit_keeps_occupied[OF dist assms(3,4), of u lid m form]
      by (simp add: survives_self)
  qed
  then show ?thesis
    using spots_to_remove_available app_spots_to_remove_available by blast
qed


theorem resize_never_deletes_occupied_witness:
  "survives \<lparr>spot_id = 3, parking_lot_id = 1, spot_number = ''S3'', status = Occupied,
             user_id = Some 4\<rparr>
     (snd (handle Controllers (run Controllers empty_db last_taken)
             (ResizeLot admin 1 POST (lot_of_size 1))))
   \<and> survives \<lparr>spot_id = 3, parking_lot_id = 1, spot_number = ''S3'', status = Occupied,
               user_id = Some 4\<rparr>
       (snd (handle App (run App empty_db last_taken) (ResizeLot admin 1 POST (lot_of_size 1))))
   \<and> map spot_number
         (spots (snd (handle Controllers (run Controllers empty_db last_taken)
                        (ResizeLot admin 1 POST (lot_of_size 1))))) = [''S1'']
   \<and> map spot_number
         (spots (snd (handle App (run App empty_db last_taken)
                        (ResizeLot admin 1 POST (lot_of_size 1))))) = [''S3'']"
proof -
  let ?s = "\<lparr>spot_id = 3, parking_lot_id = 1, spot_number = ''S3'', status = Occupied,
             user_id = Some 4\<rparr>"
  have 0: "distinct (map spot_id (spots empty_db))" by code_simp
  have 1: "?s \<in> set (spots (run Controllers empty_db last_taken))" by code_simp
  have 2: "?s \<in> set (spots (run App empty_db last_taken))" by code_simp
  have 3: "status ?s = Occupied" by simp
  have 4: "map spot_number
         (spots (snd (handle Controllers (run Controllers empty_db last_taken)
                        (ResizeLot admin 1 POST (lot_of_size 1))))) = [''S1'']" by code_simp
  have 5: "map spot_number
         (spots (snd (handle App (run App empty_db last_taken)
                        (ResizeLot admin 1 POST (lot_of_size 1))))) = [''S3'']" by code_simp
  show ?thesis
    using resize_never_deletes_occupied[OF 0 refl 1 3, of admin 1 POST "lot_of_size 1"]
          resize_never_deletes_occupied[OF 0 refl 2 3, of admin 1 POST "lot_of_size 1"] 4 5
    by blast
qed

subsection \<open>The renumbering of the controllers\<close>

lemma get_spot_number_format:
  "get_spot_number (s\<lparr>spot_number := CHR ''S'' # py_str i\<rparr>) = i"
  using decode_tagged[of i] by (simp add: get_spot_number_def)

lemma filter_map_keep:
  "(\<And>x. P (g x) = P x) \<Longrightarrow> filter P (map g xs) = map g (filter P xs)"
  by (induction xs) auto

lemma spots_renumber: "spots (renumber lid d) = map (renumbered lid d) (spots d)"
  by (simp add: renumber_def renumbered_def[abs_def] Let_def)

lemma renumbered_lot [simp]: "parking_lot_id (renumbered lid d s) = parking_lot_id s"
  by (simp add: renumbered_def split: option.splits)

lemma lot_spots_renumber:
  "lot_spots (renumber lid d) lid' = map (renumbered lid d) (lot_spots d lid')"
  by (simp add: lot_spots_def spots_renumber filter_map_keep)

lemma distinct_lot_ids:
  "distinct (map spot_id (spots d)) \<Longrightarrow> distinct (map spot_id (lot_spots d lid))"
  by (simp add: lot_spots_def distinct_map_filter)

lemma distinct_map_sort_key:
  "distinct (map f xs) \<Longrightarrow> distinct (map f (sort_key k xs))"
proof -
  assume a: "distinct (map f xs)"
  have "mset (map f (sort_key k xs)) = mset (map f xs)" by simp
  then show ?thesis using a by (metis mset_eq_imp_distinct_iff)
qed

lemma renumbered_nth:
  assumes dist: "distinct (map spot_id (spots d))"
    and j: "j < length (lot_spots d lid)"
  shows "get_spot_number (renumbered lid d (sort_key get_spot_number (lot_spots d lid) ! j))
         = 1 + int j"
proof -
  let ?ys = "sort_key get_spot_number (lot_spots d lid)"
  have dy: "distinct (map spot_id ?ys)"
    using dist by (intro distinct_map_sort_key distinct_lot_ids)
  have len: "length (map spot_id ?ys) = length [1..int (length ?ys)]" by simp
  have j': "j < length [1..int (length ?ys)]" using j by simp
  from map_of_zip_nth[OF len dy j']
  have "map_of (zip (map spot_id ?ys) [1..int (length ?ys)]) (spot_id (?ys ! j))
        = Some (1 + int j)"
    using j by simp
  moreover have "?ys ! j \<in> set (lot_spots d lid)"
    using j by (metis length_sort nth_mem set_sort)
  then have "parking_lot_id (?ys ! j) = lid" by (simp add: lot_spots_def)
  ultimately show ?thesis by (simp add: renumbered_def get_spot_number_format)
qed

lemma renumbered_sorted_upto:
  assumes dist: "distinct (map spot_id (spots d))"
  shows "map (\<lambda>s. get_spot_number (renumbered lid d s)) (sort_key get_spot_number (lot_spots d lid))
         = [1..int (length (lot_spots d lid))]"
  by (rule nth_equalityI) (simp_all add: renumbered_nth[OF dist])

lemma renumber_ordinals:
  assumes dist: "distinct (map spot_id (spots d))"
  shows "sort (map get_spot_number (lot_spots (renumber lid d) lid))
         = [1..int (length (lot_spots d lid))]"
proof (rule properties_for_sort)
  let ?h = "\<lambda>s. get_spot_number (renumbered lid d s)"
  have "mset (map ?h (lot_spots d lid)) = mset (map ?h (sort_key get_spot_number (lot_spots d lid)))"
    by simp
  then show "mset [1..int (length (lot_spots d lid))]
      = mset (map get_spot_number (lot_spots (renumber lid d) lid))"
    by (simp add: lot_spots_renumber comp_def renumbered_sorted_upto[OF dist])
  show "sorted [1..int (length (lot_spots d lid))]" by simp
qed

lemma renumber_keeps_order:
  assumes dist: "distinct (map spot_id (spots d))"
    and s: "s \<in> set (lot_spots d lid)" and t: "t \<in> set (lot_spots d lid)"
    and lt: "get_spot_number s < get_spot_number t"
  shows "get_spot_number (renumbered lid d s) < get_spot_number (renumbered lid d t)"
proof -
  let ?ys = "sort_key get_spot_number (lot_spots d lid)"
  from s obtain i where i: "i < length ?ys" "?ys ! i = s"
    by (metis in_set_conv_nth set_sort)
  from t obtain j where j: "j < length ?ys" "?ys ! j = t"
    by (metis in_set_conv_nth set_sort)
  have "i < j"
  proof (rule ccontr)
    assume "\<not> i < j"
    then have "j \<le> i" by simp
    moreover have "sorted (map get_spot_number ?ys)" by (rule sorted_sort_key)
    ultimately have "map get_spot_number ?ys ! j \<le> map get_spot_number ?ys ! i"
      using i(1) by (intro sorted_nth_mono) simp_all
    with i j lt show False by simp
  qed
  moreover have "get_spot_number (renumbered lid d (?ys ! i)) = 1 + int i"
    using i(1) by (intro renumbered_nth[OF dist]) simp
  moreover have "get_spot_number (renumbered lid d (?ys ! j)) = 1 + int j"
    using j(1) by (intro renumbered_nth[OF dist]) simp
  ultimately show ?thesis using i(2) j(2) by simp
qed

subsection \<open>How many spots a resize leaves\<close>

lemma lots_add_spot [simp]: "lots (add_spot number lid d) = lots d"
  by (simp add: add_spot_def)

lemma lots_fold_add_spot [simp]: "lots (fold (\<lambda>i. add_spot (g i) lid) js d) = lots d"
  by (induction js arbitrary: d) simp_all

lemma lots_fold_delete_spot [simp]: "lots (fold delete_spot rm d) = lots d"
proof (induction rm arbitrary: d)
  case Nil
  show ?case by simp
next
  case (Cons r rs)
  have "lots (delete_spot r d) = lots d" by (simp add: delete_spot_def)
  with Cons.IH[of "delete_spot r d"] show ?case by simp
qed

lemma lots_normalize [simp]: "lots (normalize_spot_numbers lid d) = lots d"
  by (simp add: normalize_spot_numbers_def)

lemma lots_renumber [simp]: "lots (renumber lid d) = lots d"
  by (simp add: renumber_def Let_def)

lemma length_lot_spots_add_spot:
  "length (lot_spots (add_spot number lid d) lid) = Suc (length (lot_spots d lid))"
  by (simp add: lot_spots_def add_spot_def)

lemma length_lot_spots_fold_add_spot:
  "length (lot_spots (fold (\<lambda>i. add_spot (g i) lid) js d) lid)
   = length (lot_spots d lid) + length js"
  by (induction js arbitrary: d) (simp_all add: length_lot_spots_add_spot)

lemma length_lot_spots_normalize:
  "length (lot_spots (normalize_spot_numbers lid d) lid') = length (lot_spots d lid')"
proof -
  have "lot_spots (normalize_spot_numbers lid d) lid'
        = map (\<lambda>spot. if parking_lot_id spot = lid
                 then spot\<lparr>spot_number := format_spot_number (PStr (spot_number spot))\<rparr>
                 else spot) (lot_spots d lid')"
    unfolding lot_spots_def normalize_spot_numbers_def
    by (simp add: filter_map_keep)
  then show ?thesis by simp
qed

lemma length_lot_spots_grow:
  "length (lot_spots (grow_spots lot n d) (lot_id lot))
   = length (lot_spots d (lot_id lot)) + nat (n - max_no_spots lot)"
  by (simp add: grow_spots_def Let_def length_lot_spots_fold_add_spot length_lot_spots_normalize)

lemma length_filter_removed:
  assumes df: "distinct (map f xs)" and sub: "set rm \<subseteq> set xs" and dr: "distinct rm"
  shows "length (filter (\<lambda>x. f x \<notin> f ` set rm) xs) = length xs - length rm"
proof -
  have dx: "distinct xs" using df by (simp add: distinct_map)
  have inj: "inj_on f (set xs)" using df by (simp add: distinct_map)
  have "filter (\<lambda>x. f x \<notin> f ` set rm) xs = filter (\<lambda>x. x \<notin> set rm) xs"
  proof (rule filter_cong[OF refl])
    fix x assume x: "x \<in> set xs"
    show "(f x \<notin> f ` set rm) = (x \<notin> set rm)"
      using inj x sub by (auto dest: inj_onD)
  qed
  moreover have "set (filter (\<lambda>x. x \<notin> set rm) xs) = set xs - set rm" by auto
  moreover have "distinct (filter (\<lambda>x. x \<notin> set rm) xs)" using dx by simp
  ultimately have "length (filter (\<lambda>x. f x \<notin> f ` set rm) xs) = card (set xs - set rm)"
    by (metis distinct_card)
  also have "\<dots> = card (set xs) - card (set rm)"
    using sub by (simp add: card_Diff_subset)
  also have "\<dots> = length xs - length rm"
    using dx dr by (simp add: distinct_card)
  finally show ?thesis .
qed

lemma lot_spots_fold_delete_spot:
  "lot_spots (fold delete_spot rm d) lid
   = filter (\<lambda>s. spot_id s \<notin> spot_id ` set rm) (lot_spots d lid)"
  by (auto simp: lot_spots_def spots_fold_delete_spot intro: filter_cong)

lemma length_status_split:
  "length (filter (\<lambda>spot. status spot = Occupied) xs)
   + length (filter (\<lambda>spot. status spot = Available) xs) = length xs"
proof (induction xs)
  case Nil
  show ?case by simp
next
  case (Cons x xs)
  then show ?case by (cases "status x") simp_all
qed

lemma length_lot_spots_shrink:
  assumes dist: "distinct (map spot_id (spots d))"
    and occ: "int (length (spots_with_status d (lot_id lot) Occupied)) \<le> n"
    and n: "n \<le> int (length (lot_spots d (lot_id lot)))"
  shows "int (length (lot_spots (shrink_spots lot n d) (lot_id lot))) = n"
proof -
  let ?xs = "lot_spots d (lot_id lot)"
  let ?ys = "sort_key get_spot_number ?xs"
  let ?oc = "filter (\<lambda>spot. status spot = Occupied) ?ys"
  let ?av = "filter (\<lambda>spot. status spot = Available) ?ys"
  let ?rm = "spots_to_remove lot n d"
  have oc: "length ?oc = length (spots_with_status d (lot_id lot) Occupied)"
  proof -
    have "mset ?oc = mset (filter (\<lambda>spot. status spot = Occupied) ?xs)" by simp
    then have "length ?oc = length (filter (\<lambda>spot. status spot = Occupied) ?xs)"
      by (rule mset_eq_length)
    then show ?thesis by (simp add: spots_with_status_filter)
  qed
  have split: "length ?oc + length ?av = length ?xs"
    using length_status_split[of ?ys] by simp
  have dxs: "distinct (map spot_id ?xs)" using dist by (rule distinct_lot_ids)
  show ?thesis
  proof (cases "n - int (length ?oc) < int (length ?av)")
    case False
    then have "?rm = []" by (simp add: spots_to_remove_def Let_def)
    moreover from False split n have "int (length ?xs) = n" by simp
    ultimately show ?thesis by (simp add: shrink_spots_def)
  next
    case True
    then have rm: "?rm = take (nat (int (length ?av) - (n - int (length ?oc))))
                          (sort_key (\<lambda>spot. - get_spot_number spot) ?av)"
      by (simp add: spots_to_remove_def Let_def)
    have lrm: "int (length ?rm) = int (length ?av) - (n - int (length ?oc))"
      using True occ oc unfolding rm by simp
    have sub: "set ?rm \<subseteq> set ?xs"
      unfolding rm by (auto dest: in_set_takeD)
    have "distinct ?xs" using dxs by (simp add: distinct_map)
    then have drm: "distinct ?rm" unfolding rm by simp
    have "length (lot_spots (shrink_spots lot n d) (lot_id lot)) = length ?xs - length ?rm"
      unfolding shrink_spots_def lot_spots_fold_delete_spot
      using dxs sub drm by (rule length_filter_removed)
    moreover have "length ?rm \<le> length ?xs"
      using sub drm by (metis card_mono distinct_card List.finite_set \<open>distinct ?xs\<close>)
    ultimately show ?thesis using lrm split by linarith
  qed
qed

lemma edit_parking_lot_Success:
  assumes "edit_parking_lot d u lid m form = (Success, d')"
  obtains lot where "get_lot d lid = Some lot"
    and "\<not> f_max_no_spots form < int (length (spots_with_status d lid Occupied))"
    and "d' = renumber lid
                (update_lot lid (\<lambda>l. l\<lparr>max_no_spots := f_max_no_spots form\<rparr>)
                   (if f_max_no_spots form > max_no_spots lot
                    then grow_spots lot (f_max_no_spots form)
                           (update_lot lid (set_lot_details form) d)
                    else if f_max_no_spots form < max_no_spots lot
                    then shrink_spots lot (f_max_no_spots form)
                           (update_lot lid (set_lot_details form) d)
                    else update_lot lid (set_lot_details form) d))"
proof (cases "is_admin u")
  case False
  with assms show ?thesis by (simp add: edit_parking_lot_def)
next
  case admin: True
  show ?thesis
  proof (cases "get_lot d lid")
    case None
    with admin assms show ?thesis by (simp add: edit_parking_lot_def)
  next
    case (Some lot)
    show ?thesis
    proof (cases "m = POST")
      case False
      with admin Some assms show ?thesis by (simp add: edit_parking_lot_def Let_def)
    next
      case post: True
      show ?thesis
      proof (cases "f_max_no_spots form < int (length (spots_with_status d lid Occupied))")
        case True
        with admin Some post assms show ?thesis by (simp add: edit_parking_lot_def Let_def)
      next
        case False
        with admin Some post have "snd (edit_parking_lot d u lid m form)
            = renumber lid
                (update_lot lid (\<lambda>l. l\<lparr>max_no_spots := f_max_no_spots form\<rparr>)
                   (if f_max_no_spots form > max_no_spots lot
                    then grow_spots lot (f_max_no_spots form)
                           (update_lot lid (set_lot_details form) d)
                    else if f_max_no_spots form < max_no_spots lot
                    then shrink_spots lot (f_max_no_spots form)
                           (update_lot lid (set_lot_details form) d)
                    else update_lot lid (set_lot_details form) d))"
          by (simp only: edit_parking_lot_def Let_def simp_thms if_True if_False option.case
              snd_conv)
        with assms Some False that show ?thesis by simp
      qed
    qed
  qed
qed

lemma get_lot_id: "get_lot d lid = Some lot \<Longrightarrow> lot_id lot = lid"
  by (auto simp: get_lot_def dest: find_Some_P)

lemma get_lot_update_lot:
  assumes "\<And>l. lot_id (f l) = lot_id l"
  shows "get_lot (update_lot lid f d) lid'
         = map_option (\<lambda>l. if lot_id l = lid then f l else l) (get_lot d lid')"
  unfolding get_lot_def update_lot_def using assms by (simp add: find_map_keep)

lemma get_lot_lots: "lots d' = lots d \<Longrightarrow> get_lot d' lid = get_lot d lid"
  by (simp add: get_lot_def)

lemma lot_spots_spots: "spots d' = spots d \<Longrightarrow> lot_spots d' lid = lot_spots d lid"
  by (simp add: lot_spots_def)

lemma spots_with_status_spots:
  "spots d' = spots d \<Longrightarrow> spots_with_status d' lid st = spots_with_status d lid st"
  by (simp add: spots_with_status_def)

lemma lots_grow [simp]: "lots (grow_spots lot n d) = lots d"
  by (simp add: grow_spots_def Let_def)

lemma lots_shrink [simp]: "lots (shrink_spots lot n d) = lots d"
  by (simp add: shrink_spots_def)

lemma distinct_shrink:
  "distinct (map spot_id (spots d)) \<Longrightarrow> distinct (map spot_id (spots (shrink_spots lot n d)))"
  by (simp add: shrink_spots_def distinct_fold_delete_spot)

text \<open>
  What \<open>edit_parking_lot\<close> of the controllers leaves, on a lot that had as many spots
  as its capacity said: the new capacity in the lot row, and the ordinals 1, ..., capacity.
\<close>

lemma controllers_resize_exact:
  assumes dist: "distinct (map spot_id (spots d))"
    and lot: "get_lot d lid = Some lot"
    and cap: "int (length (lot_spots d lid)) = max_no_spots lot"
    and ok: "edit_parking_lot d u lid m form = (Success, d')"
  shows "ordinals_exact d' lid"
proof -
  let ?n = "f_max_no_spots form"
  let ?d1 = "update_lot lid (set_lot_details form) d"
  let ?d2 = "if ?n > max_no_spots lot then grow_spots lot ?n ?d1
             else if ?n < max_no_spots lot then shrink_spots lot ?n ?d1 else ?d1"
  let ?d3 = "update_lot lid (\<lambda>l. l\<lparr>max_no_spots := ?n\<rparr>) ?d2"
  from ok lot have occ: "\<not> ?n < int (length (spots_with_status d lid Occupied))"
    and d': "d' = renumber lid ?d3"
    by (auto elim!: edit_parking_lot_Success)
  have lid: "lot_id lot = lid" using lot by (rule get_lot_id)
  have d1: "distinct (map spot_id (spots ?d1))" using dist by simp
  have xs1: "lot_spots ?d1 lid = lot_spots d lid" by (rule lot_spots_spots) simp
  have occ1: "spots_with_status ?d1 lid Occupied = spots_with_status d lid Occupied"
    by (rule spots_with_status_spots) simp
  have d2: "distinct (map spot_id (spots ?d2))"
    using d1 by (simp add: distinct_grow distinct_shrink)
  have count: "int (length (lot_spots ?d2 lid)) = ?n"
  proof (cases "?n > max_no_spots lot")
    case True
    then show ?thesis
      using length_lot_spots_grow[of lot ?n ?d1] cap by (simp add: lid xs1)
  next
    case False
    show ?thesis
    proof (cases "?n < max_no_spots lot")
      case True
      have "int (length (lot_spots (shrink_spots lot ?n ?d1) (lot_id lot))) = ?n"
        using d1 occ True cap by (intro length_lot_spots_shrink) (simp_all add: lid xs1 occ1)
      with True False show ?thesis by (simp add: lid)
    next
      case same: False
      with False cap show ?thesis by (simp add: xs1)
    qed
  qed
  have lots2: "lots ?d2 = lots ?d1" by simp
  have "get_lot ?d1 lid = Some (set_lot_details form lot)"
    using lid lot by (simp add: get_lot_update_lot set_lot_details_def)
  then have "get_lot ?d2 lid = Some (set_lot_details form lot)"
    using get_lot_lots[OF lots2, of lid] by simp
  then have "get_lot ?d3 lid = Some ((set_lot_details form lot)\<lparr>max_no_spots := ?n\<rparr>)"
    using lid by (simp add: get_lot_update_lot set_lot_details_def)
  moreover have "get_lot d' lid = get_lot ?d3 lid"
    unfolding d' by (rule get_lot_lots) simp
  ultimately have g: "get_lot d' lid = Some ((set_lot_details form lot)\<lparr>max_no_spots := ?n\<rparr>)"
    by simp
  have "sort (map get_spot_number (lot_spots d' lid)) = [1..int (length (lot_spots ?d3 lid))]"
    unfolding d' using d2 by (intro renumber_ordinals) simp
  also have "lot_spots ?d3 lid = lot_spots ?d2 lid" by (rule lot_spots_spots) simp
  finally show ?thesis using g count by (simp add: ordinals_exact_def)
qed

subsection \<open>The numbers of the spots a growing resize adds\<close>

lemma py_upper_Cons_S: "py_upper (CHR ''S'' # s) = CHR ''S'' # py_upper s"
proof -
  have "py_upper [CHR ''S''] = ''S''" by code_simp
  moreover have "py_upper (c # s) = py_upper [c] @ py_upper s" for c
    by (simp add: py_upper_def)
  ultimately show ?thesis by simp
qed

lemma get_spot_number_normalized:
  "get_spot_number (s\<lparr>spot_number := format_spot_number (PStr (spot_number s))\<rparr>)
   = get_spot_number s"
proof (cases "py_int (remove_S (py_upper (spot_number s)))")
  case None
  then show ?thesis
    by (simp add: get_spot_number_def py_upper_Cons_S remove_S_def)
next
  case (Some n)
  then show ?thesis
    using decode_tagged[of n] by (simp add: get_spot_number_def)
qed

lemma highest_number_fold:
  "h \<le> fold (\<lambda>spot highest.
             case py_int (remove_S (py_upper (spot_number spot))) of
               Some num \<Rightarrow> if num > highest then num else highest
             | None \<Rightarrow> highest) xs h"
proof (induction xs arbitrary: h)
  case Nil
  show ?case by simp
next
  case (Cons x xs)
  let ?h' = "case py_int (remove_S (py_upper (spot_number x))) of
               Some num \<Rightarrow> if num > h then num else h | None \<Rightarrow> h"
  have "h \<le> ?h'" by (simp split: option.splits)
  also have "?h' \<le> fold (\<lambda>spot highest.
             case py_int (remove_S (py_upper (spot_number spot))) of
               Some num \<Rightarrow> if num > highest then num else highest
             | None \<Rightarrow> highest) xs ?h'"
    by (rule Cons.IH)
  finally show ?case by simp
qed

lemma highest_number_fold_upper:
  assumes "s \<in> set xs" and "0 \<le> h"
  shows "get_spot_number s \<le> fold (\<lambda>spot highest.
             case py_int (remove_S (py_upper (spot_number spot))) of
               Some num \<Rightarrow> if num > highest then num else highest
             | None \<Rightarrow> highest) xs h"
  using assms
proof (induction xs arbitrary: h)
  case Nil
  then show ?case by simp
next
  case (Cons x xs)
  let ?step = "\<lambda>spot highest.
             case py_int (remove_S (py_upper (spot_number spot))) of
               Some num \<Rightarrow> if num > highest then num else highest
             | None \<Rightarrow> highest"
  have h': "0 \<le> ?step x h" using Cons.prems(2) by (simp split: option.splits)
  show ?case
  proof (cases "s = x")
    case True
    have "get_spot_number x \<le> ?step x h"
      using Cons.prems(2) by (simp add: get_spot_number_def split: option.splits)
    also have "\<dots> \<le> fold ?step xs (?step x h)" by (rule highest_number_fold)
    finally show ?thesis using True by simp
  next
    case False
    with Cons.prems(1) have "s \<in> set xs" by simp
    from Cons.IH[OF this h'] show ?thesis by simp
  qed
qed

lemma highest_number_upper: "s \<in> set xs \<Longrightarrow> get_spot_number s \<le> highest_number xs"
  unfolding highest_number_def by (rule highest_number_fold_upper) simp_all

lemma spots_fold_add_spot:
  "\<exists>news. spots (fold (\<lambda>i. add_spot (g i) lid) js d) = spots d @ news
         \<and> map (\<lambda>x. (parking_lot_id x, spot_number x)) news = map (\<lambda>i. (lid, g i)) js"
proof (induction js arbitrary: d)
  case Nil
  show ?case by simp
next
  case (Cons j js)
  let ?new = "\<lparr>spot_id = next_id (map spot_id (spots d)), parking_lot_id = lid,
          spot_number = g j, status = Available, user_id = None\<rparr>"
  have first: "spots (add_spot (g j) lid d) = spots d @ [?new]"
    by (simp add: add_spot_def)
  from Cons.IH[of "add_spot (g j) lid d"] obtain news where
    1: "spots (fold (\<lambda>i. add_spot (g i) lid) js (add_spot (g j) lid d))
       = spots (add_spot (g j) lid d) @ news"
    and 2: "map (\<lambda>x. (parking_lot_id x, spot_number x)) news = map (\<lambda>i. (lid, g i)) js"
    by blast
  have "spots (fold (\<lambda>i. add_spot (g i) lid) (j # js) d) = spots d @ (?new # news)"
    using 1 first by simp
  moreover have "map (\<lambda>x. (parking_lot_id x, spot_number x)) (?new # news)
                 = map (\<lambda>i. (lid, g i)) (j # js)"
    using 2 by simp
  ultimately show ?case by blast
qed

text \<open>
  The spots the controllers' growing branch adds: as many as the capacity grows by, in
  the lot, each with a number above the number of every spot the lot had.
\<close>

lemma controllers_grow_above_highest:
  "\<exists>news. spots (grow_spots lot n d) = spots (normalize_spot_numbers (lot_id lot) d) @ news
     \<and> length news = nat (n - max_no_spots lot)
     \<and> (\<forall>x\<in>set news. parking_lot_id x = lot_id lot
           \<and> (\<forall>y\<in>set (lot_spots d (lot_id lot)). get_spot_number y < get_spot_number x))"
proof -
  let ?d1 = "normalize_spot_numbers (lot_id lot) d"
  let ?h = "highest_number (lot_spots ?d1 (lot_id lot))"
  let ?g = "\<lambda>i. format_spot_number (PInt (?h + i))"
  from spots_fold_add_spot[of ?g "lot_id lot" "[1..n - max_no_spots lot]" ?d1]
  obtain news where news: "spots (grow_spots lot n d) = spots ?d1 @ news"
    and m: "map (\<lambda>x. (parking_lot_id x, spot_number x)) news
            = map (\<lambda>i. (lot_id lot, ?g i)) [1..n - max_no_spots lot]"
    by (auto simp: grow_spots_def Let_def)
  from m have "length news = length [1..n - max_no_spots lot]"
    by (metis length_map)
  then have len: "length news = nat (n - max_no_spots lot)" by simp
  have above: "parking_lot_id x = lot_id lot
      \<and> (\<forall>y\<in>set (lot_spots d (lot_id lot)). get_spot_number y < get_spot_number x)"
    if x: "x \<in> set news" for x
  proof -
    from x have "(parking_lot_id x, spot_number x)
        \<in> set (map (\<lambda>x. (parking_lot_id x, spot_number x)) news)"
      by simp
    then have "(parking_lot_id x, spot_number x)
        \<in> set (map (\<lambda>i. (lot_id lot, ?g i)) [1..n - max_no_spots lot])"
      by (simp only: m)
    then obtain i where i: "1 \<le> i" "parking_lot_id x = lot_id lot" "spot_number x = ?g i"
      by auto
    have nx: "get_spot_number x = ?h + i"
      using i(3) decode_tagged[of "?h + i"] by (simp add: get_spot_number_def)
    have "get_spot_number y < get_spot_number x" if y: "y \<in> set (lot_spots d (lot_id lot))" for y
    proof -
      let ?y' = "y\<lparr>spot_number := format_spot_number (PStr (spot_number y))\<rparr>"
      from y have "?y' \<in> set (lot_spots ?d1 (lot_id lot))"
        by (auto simp: lot_spots_def normalize_spot_numbers_def intro!: image_eqI[of _ _ y])
      then have "get_spot_number ?y' \<le> ?h" by (rule highest_number_upper)
      then have "get_spot_number y \<le> ?h" by (simp only: get_spot_number_normalized)
      with nx i(1) show ?thesis by simp
    qed
    with i(2) show ?thesis by blast
  qed
  from news len above show ?thesis by blast
qed

subsection \<open>The spots of a lot stay in the order of their numbers\<close>

lemma well_numbered_rows:
  assumes "well_numbered d"
  shows "map get_spot_number (lot_spots d lid) = [1..int (length (lot_spots d lid))]"
proof (cases "lid \<in> set (map lot_id (lots d))")
  case True
  with assms show ?thesis by (auto simp: well_numbered_def list_all_iff)
next
  case False
  with assms have "lot_spots d lid = []"
    by (auto simp: well_numbered_def list_all_iff lot_spots_def filter_empty_conv)
  then show ?thesis by simp
qed

lemma well_numberedI:
  assumes "distinct (map spot_id (spots d))"
    and "\<And>s. s \<in> set (spots d) \<Longrightarrow> parking_lot_id s \<in> set (map lot_id (lots d))"
    and "\<And>lid. map get_spot_number (lot_spots d lid) = [1..int (length (lot_spots d lid))]"
  shows "well_numbered d"
  using assms by (simp add: well_numbered_def list_all_iff)

lemma well_numbered_empty: "well_numbered empty_db"
  by (simp add: well_numbered_def empty_db_def lot_spots_def)

lemma well_numbered_update_spot:
  assumes w: "well_numbered d"
    and f: "\<And>s. spot_id (f s) = spot_id s \<and> parking_lot_id (f s) = parking_lot_id s
                 \<and> spot_number (f s) = spot_number s"
    and l: "lots d' = lots d"
    and s: "spots d' = spots (update_spot sid f d)"
  shows "well_numbered d'"
proof (rule well_numberedI)
  let ?g = "\<lambda>s. if spot_id s = sid then f s else s"
  have sp: "spots d' = map ?g (spots d)" using s by (simp add: update_spot_def)
  have g: "spot_id (?g x) = spot_id x" "parking_lot_id (?g x) = parking_lot_id x"
    "get_spot_number (?g x) = get_spot_number x" for x
    using f[of x] by (simp_all add: get_spot_number_def)
  show "distinct (map spot_id (spots d'))"
    using w by (simp add: sp well_numbered_def comp_def g)
  show "parking_lot_id x \<in> set (map lot_id (lots d'))" if "x \<in> set (spots d')" for x
  proof -
    from that obtain y where "y \<in> set (spots d)" "x = ?g y" unfolding sp by auto
    with w show ?thesis unfolding l by (simp add: g well_numbered_def list_all_iff del: set_map)
  qed
  show "map get_spot_number (lot_spots d' lid) = [1..int (length (lot_spots d' lid))]" for lid
  proof -
    have "lot_spots d' lid = map ?g (lot_spots d lid)"
      unfolding lot_spots_def sp by (rule filter_map_keep) (simp add: g)
    then show ?thesis using well_numbered_rows[OF w, of lid] by (simp add: comp_def g)
  qed
qed

lemma well_numbered_reserve:
  assumes "well_numbered d"
  shows "well_numbered (snd (reserve_spot d u lid m v now))"
proof (cases "fst (reserve_spot d u lid m v now) = Success")
  case False
  then have "snd (reserve_spot d u lid m v now) = d"
    by (auto simp: reserve_spot_def Let_def split: option.splits list.splits if_splits)
  with assms show ?thesis by simp
next
  case True
  then obtain lot spot rest where c: "active_booking d (u_id u) = None" "get_lot d lid = Some lot"
    "m = POST" "spots_with_status d lid Available = spot # rest"
    by (auto simp: reserve_spot_def split: option.splits list.splits if_splits)
  then have "lots (snd (reserve_spot d u lid m v now)) = lots d"
    "spots (snd (reserve_spot d u lid m v now))
       = spots (update_spot (spot_id spot)
                  (\<lambda>s. s\<lparr>status := Occupied, user_id := Some (u_id u)\<rparr>) d)"
    by (simp_all add: reserve_spot_def Let_def update_spot_def)
  then show ?thesis
    by (intro well_numbered_update_spot[OF assms,
          where f = "\<lambda>s. s\<lparr>status := Occupied, user_id := Some (u_id u)\<rparr>"
          and sid = "spot_id spot"]) simp_all
qed

lemma well_numbered_release_with:
  assumes "well_numbered d"
  shows "well_numbered (snd (release_with clamp d u bid now))"
proof (cases "fst (release_with clamp d u bid now) = Success")
  case False
  then have "snd (release_with clamp d u bid now) = d"
    by (auto simp: release_with_def split: option.splits if_splits)
  with assms show ?thesis by simp
next
  case True
  then obtain d1 where d1: "release_with clamp d u bid now = (Success, d1)"
    by (cases "release_with clamp d u bid now") simp
  then obtain b s l where "get_booking d bid = Some b" "b_user_id b = u_id u"
    "get_spot d (parking_spot_id b) = Some s" "get_lot d (b_parking_lot_id b) = Some l"
    "d1 = update_spot (spot_id s) (\<lambda>s. s\<lparr>status := Available, user_id := None\<rparr>)
            (update_booking bid
               (\<lambda>x. x\<lparr>out_time := Some now,
                       cost := Some (py_round
                         (clamp (total_seconds (now - in_time b) / 3600) * price_per_hour l) 2)\<rparr>) d)"
    by (rule release_with_Success)
  then have "lots d1 = lots d"
    "spots d1 = spots (update_spot (spot_id s) (\<lambda>s. s\<lparr>status := Available, user_id := None\<rparr>) d)"
    by (simp_all add: update_spot_def update_booking_def)
  then have "well_numbered d1"
    by (intro well_numbered_update_spot[OF assms,
          where f = "\<lambda>s. s\<lparr>status := Available, user_id := None\<rparr>"
          and sid = "spot_id s"]) simp_all
  with d1 show ?thesis by simp
qed

lemma map_eq_transfer:
  "map f xs = map h ys \<Longrightarrow> (\<And>x y. f x = h y \<Longrightarrow> p x = q y) \<Longrightarrow> map p xs = map q ys"
proof (induction xs arbitrary: ys)
  case Nil
  then show ?case by simp
next
  case (Cons x xs)
  then obtain y ys' where "ys = y # ys'" by (cases ys) auto
  with Cons show ?case by auto
qed

lemma lot_spots_append:
  assumes "spots d' = spots d @ news" and "\<And>x. x \<in> set news \<Longrightarrow> parking_lot_id x = lid0"
  shows "lot_spots d' lid = (if lid = lid0 then lot_spots d lid @ news else lot_spots d lid)"
  using assms by (auto simp: lot_spots_def filter_empty_conv filter_id_conv)

lemma news_of_fold_add_spot:
  obtains news :: "parking_spot list"
    where "spots (fold (\<lambda>i. add_spot (g i) lid) js d) = spots d @ news"
    and "\<And>x. x \<in> set news \<Longrightarrow> parking_lot_id x = lid"
    and "\<And>k. (\<And>i. get_spot_number \<lparr>spot_id = 0, parking_lot_id = lid, spot_number = g i,
                         status = Available, user_id = None\<rparr> = k i) \<Longrightarrow>
              map get_spot_number news = map k js"
proof -
  from spots_fold_add_spot[of g lid js d] obtain news where
    1: "spots (fold (\<lambda>i. add_spot (g i) lid) js d) = spots d @ news"
    and 2: "map (\<lambda>x. (parking_lot_id x, spot_number x)) news = map (\<lambda>i. (lid, g i)) js"
    by blast
  have 3: "parking_lot_id x = lid" if "x \<in> set news" for x
  proof -
    from that have "(parking_lot_id x, spot_number x)
        \<in> set (map (\<lambda>x. (parking_lot_id x, spot_number x)) news)" by simp
    then show ?thesis unfolding 2 by auto
  qed
  have 4: "map get_spot_number news = map k js"
    if "\<And>i. get_spot_number \<lparr>spot_id = 0, parking_lot_id = lid, spot_number = g i,
                         status = Available, user_id = None\<rparr> = k i" for k
    using 2
  proof (rule map_eq_transfer)
    fix x :: parking_spot and i
    assume "(parking_lot_id x, spot_number x) = (lid, g i)"
    then have "spot_number x = g i" by simp
    then have "get_spot_number x = get_spot_number \<lparr>spot_id = 0, parking_lot_id = lid,
        spot_number = g i, status = Available, user_id = None\<rparr>"
      by (simp add: get_spot_number_def)
    then show "get_spot_number x = k i" by (simp only: that)
  qed
  from 1 3 4 that show thesis by blast
qed

lemma well_numbered_create:
  assumes w: "well_numbered d"
  shows "well_numbered (snd (create_parking_lot d u m form))"
proof (cases "is_admin u \<and> m = POST")
  case False
  then have "snd (create_parking_lot d u m form) = d"
    by (auto simp: create_parking_lot_def)
  with w show ?thesis by simp
next
  case True
  let ?new = "next_id (map lot_id (lots d))"
  let ?lot = "\<lparr>lot_id = ?new, name = f_name form, address = f_address form,
               pincode = f_pincode form, price_per_hour = f_price_per_hour form,
               max_no_spots = f_max_no_spots form\<rparr>"
  let ?d1 = "d\<lparr>lots := lots d @ [?lot]\<rparr>"
  let ?g = "\<lambda>i. CHR ''S'' # py_str i"
  let ?d' = "fold (\<lambda>i. add_spot (?g i) ?new) [1..f_max_no_spots form] ?d1"
  from True have res: "snd (create_parking_lot d u m form) = ?d'"
    by (simp add: create_parking_lot_def Let_def)
  obtain news where sp: "spots ?d' = spots ?d1 @ news"
    and inlot: "\<And>x. x \<in> set news \<Longrightarrow> parking_lot_id x = ?new"
    and keys: "\<And>k. (\<And>i. get_spot_number \<lparr>spot_id = 0, parking_lot_id = ?new, spot_number = ?g i,
                         status = Available, user_id = None\<rparr> = k i) \<Longrightarrow>
              map get_spot_number news = map k [1..f_max_no_spots form]"
    by (rule news_of_fold_add_spot[of ?g ?new "[1..f_max_no_spots form]" ?d1]) blast
  have k: "map get_spot_number news = [1..f_max_no_spots form]"
    using keys[of "\<lambda>i. i"] decode_tagged by (simp add: get_spot_number_def)
  have lots': "lots ?d' = lots d @ [?lot]" by simp
  have fresh: "lot_spots d ?new = []"
  proof -
    have "parking_lot_id s \<noteq> ?new" if "s \<in> set (spots d)" for s
    proof -
      from w that have "parking_lot_id s \<in> set (map lot_id (lots d))"
        by (simp add: well_numbered_def list_all_iff del: set_map)
      with next_id_fresh[of "map lot_id (lots d)"] show ?thesis by metis
    qed
    then show ?thesis by (simp add: lot_spots_def filter_empty_conv)
  qed
  have rows: "lot_spots ?d' lid = (if lid = ?new then lot_spots d lid @ news else lot_spots d lid)"
    for lid
    using sp inlot by (auto simp: lot_spots_def filter_empty_conv filter_id_conv)
  have "well_numbered ?d'"
  proof (rule well_numberedI)
    show "distinct (map spot_id (spots ?d'))"
      using w distinct_create[of d u m form] res by (simp add: well_numbered_def)
    show "parking_lot_id x \<in> set (map lot_id (lots ?d'))" if "x \<in> set (spots ?d')" for x
    proof -
      from that sp have "x \<in> set (spots d) \<or> x \<in> set news" by simp
      then show ?thesis
      proof
        assume "x \<in> set (spots d)"
        with w show ?thesis unfolding lots' by (auto simp: well_numbered_def list_all_iff)
      next
        assume "x \<in> set news"
        then show ?thesis unfolding lots' by (simp add: inlot)
      qed
    qed
    show "map get_spot_number (lot_spots ?d' lid) = [1..int (length (lot_spots ?d' lid))]" for lid
    proof (cases "lid = ?new")
      case False
      then show ?thesis using well_numbered_rows[OF w, of lid] by (simp add: rows)
    next
      case True
      have "length news = length [1..f_max_no_spots form]"
        using k by (metis length_map)
      then have "[1..int (length news)] = [1..f_max_no_spots form]"
        by (cases "0 \<le> f_max_no_spots form") simp_all
      with True show ?thesis by (simp add: rows fresh k)
    qed
  qed
  with res show ?thesis by simp
qed

lemma renumber_in_order:
  assumes "distinct (map spot_id (spots d))" and "sorted (map get_spot_number (lot_spots d lid))"
  shows "map get_spot_number (lot_spots (renumber lid d) lid)
         = [1..int (length (lot_spots d lid))]"
proof -
  have "sort_key get_spot_number (lot_spots d lid) = lot_spots d lid"
    using assms(2) by (rule sort_key_id_if_sorted)
  with renumbered_sorted_upto[OF assms(1), of lid] show ?thesis
    by (simp add: lot_spots_renumber comp_def)
qed

lemma renumber_other_lot:
  assumes "lid' \<noteq> lid"
  shows "lot_spots (renumber lid d) lid' = lot_spots d lid'"
proof -
  have "renumbered lid d x = x" if "x \<in> set (lot_spots d lid')" for x
    using that assms by (simp add: lot_spots_def renumbered_def)
  then show ?thesis by (simp add: lot_spots_renumber map_idI)
qed

lemma lot_spots_normalize:
  "lot_spots (normalize_spot_numbers lid d) lid'
   = map (\<lambda>spot. if parking_lot_id spot = lid
                   then spot\<lparr>spot_number := format_spot_number (PStr (spot_number spot))\<rparr>
                   else spot) (lot_spots d lid')"
  unfolding lot_spots_def normalize_spot_numbers_def by (simp add: filter_map_keep)

lemma normalize_keys:
  "map get_spot_number (lot_spots (normalize_spot_numbers lid d) lid')
   = map get_spot_number (lot_spots d lid')"
proof -
  have "get_spot_number (if parking_lot_id x = lid
          then x\<lparr>spot_number := format_spot_number (PStr (spot_number x))\<rparr> else x)
        = get_spot_number x" for x
    by (cases "parking_lot_id x = lid") (simp_all only: simp_thms if_True if_False get_spot_number_normalized)
  then show ?thesis unfolding lot_spots_normalize by (simp add: comp_def)
qed

lemma normalize_other_lot:
  assumes "lid' \<noteq> lid"
  shows "lot_spots (normalize_spot_numbers lid d) lid' = lot_spots d lid'"
proof -
  have "(if parking_lot_id x = lid
          then x\<lparr>spot_number := format_spot_number (PStr (spot_number x))\<rparr> else x) = x"
    if "x \<in> set (lot_spots d lid')" for x
    using that assms by (simp add: lot_spots_def)
  then show ?thesis unfolding lot_spots_normalize by (simp add: map_idI)
qed

lemma grow_spots_news:
  obtains news :: "parking_spot list"
    where "spots (grow_spots lot n d) = spots (normalize_spot_numbers (lot_id lot) d) @ news"
    and "\<And>x. x \<in> set news \<Longrightarrow> parking_lot_id x = lot_id lot"
    and "map get_spot_number news
         = map (\<lambda>i. highest_number (lot_spots (normalize_spot_numbers (lot_id lot) d) (lot_id lot)) + i)
             [1..n - max_no_spots lot]"
proof -
  let ?d1 = "normalize_spot_numbers (lot_id lot) d"
  let ?h = "highest_number (lot_spots ?d1 (lot_id lot))"
  let ?g = "\<lambda>i. format_spot_number (PInt (?h + i))"
  obtain news :: "parking_spot list"
    where 1: "spots (fold (\<lambda>i. add_spot (?g i) (lot_id lot)) [1..n - max_no_spots lot] ?d1)
              = spots ?d1 @ news"
    and 2: "\<And>x. x \<in> set news \<Longrightarrow> parking_lot_id x = lot_id lot"
    and 3: "\<And>k. (\<And>i. get_spot_number \<lparr>spot_id = 0, parking_lot_id = lot_id lot,
                         spot_number = ?g i, status = Available, user_id = None\<rparr> = k i) \<Longrightarrow>
              map get_spot_number news = map k [1..n - max_no_spots lot]"
    by (rule news_of_fold_add_spot[of ?g "lot_id lot" "[1..n - max_no_spots lot]" ?d1]) blast
  have "map get_spot_number news = map (\<lambda>i. ?h + i) [1..n - max_no_spots lot]"
  proof (rule 3)
    fix i
    show "get_spot_number \<lparr>spot_id = 0, parking_lot_id = lot_id lot,
            spot_number = ?g i, status = Available, user_id = None\<rparr> = ?h + i"
      using decode_tagged[of "?h + i"] by (simp add: get_spot_number_def)
  qed
  moreover have "spots (grow_spots lot n d) = spots ?d1 @ news"
    using 1 by (simp only: grow_spots_def Let_def)
  ultimately show thesis using 2 that by blast
qed

lemma sorted_shifted_upto: "sorted (map (\<lambda>i. h + i) [1..(a::int)])"
proof -
  have "sorted_wrt (\<lambda>x y. h + x \<le> h + y) [1..a]"
    using sorted_upto[of 1 a] by (rule sorted_wrt_mono_rel[rotated]) simp
  then show ?thesis by (simp add: sorted_map)
qed

lemma grow_rows_sorted:
  assumes "sorted (map get_spot_number (lot_spots d (lot_id lot)))"
  shows "sorted (map get_spot_number (lot_spots (grow_spots lot n d) (lot_id lot)))"
proof -
  let ?lid = "lot_id lot"
  let ?d1 = "normalize_spot_numbers ?lid d"
  let ?h = "highest_number (lot_spots ?d1 ?lid)"
  obtain news :: "parking_spot list"
    where sp: "spots (grow_spots lot n d) = spots ?d1 @ news"
    and inlot: "\<And>x. x \<in> set news \<Longrightarrow> parking_lot_id x = ?lid"
    and keys: "map get_spot_number news = map (\<lambda>i. ?h + i) [1..n - max_no_spots lot]"
    by (rule grow_spots_news[of lot n d]) blast
  have rows: "lot_spots (grow_spots lot n d) ?lid = lot_spots ?d1 ?lid @ news"
    using lot_spots_append[OF sp inlot, of ?lid] by simp
  have old: "sorted (map get_spot_number (lot_spots ?d1 ?lid))"
    using assms by (simp only: normalize_keys)
  have new: "sorted (map get_spot_number news)"
    unfolding keys by (rule sorted_shifted_upto)
  have "x \<le> y" if "x \<in> set (map get_spot_number (lot_spots ?d1 ?lid))"
    "y \<in> set (map get_spot_number news)" for x y
  proof -
    from that(1) obtain s where "s \<in> set (lot_spots ?d1 ?lid)" "x = get_spot_number s" by auto
    then have "x \<le> ?h" using highest_number_upper by simp
    moreover from that(2) have "y \<in> set (map (\<lambda>i. ?h + i) [1..n - max_no_spots lot])"
      by (simp only: keys)
    then have "?h \<le> y" by auto
    ultimately show ?thesis by simp
  qed
  with old new show ?thesis unfolding rows by (simp add: sorted_append del: set_map)
qed

lemma grow_other_lot:
  assumes "lid' \<noteq> lot_id lot"
  shows "lot_spots (grow_spots lot n d) lid' = lot_spots d lid'"
proof -
  obtain news :: "parking_spot list"
    where sp: "spots (grow_spots lot n d) = spots (normalize_spot_numbers (lot_id lot) d) @ news"
    and inlot: "\<And>x. x \<in> set news \<Longrightarrow> parking_lot_id x = lot_id lot"
    by (rule grow_spots_news[of lot n d]) blast
  from lot_spots_append[OF sp inlot, of lid'] assms
  show ?thesis by (simp add: normalize_other_lot)
qed

lemma shrink_rows_sorted:
  assumes "sorted (map get_spot_number (lot_spots d lid))"
  shows "sorted (map get_spot_number (lot_spots (shrink_spots lot n d) lid))"
  unfolding shrink_spots_def lot_spots_fold_delete_spot using assms by (rule sorted_filter)

lemma shrink_other_lot:
  assumes dist: "distinct (map spot_id (spots d))" and other: "lid' \<noteq> lot_id lot"
  shows "lot_spots (shrink_spots lot n d) lid' = lot_spots d lid'"
proof -
  have "spot_id x \<notin> spot_id ` set (spots_to_remove lot n d)" if x: "x \<in> set (lot_spots d lid')" for x
  proof
    assume "spot_id x \<in> spot_id ` set (spots_to_remove lot n d)"
    then obtain r where r: "r \<in> set (spots_to_remove lot n d)" "spot_id x = spot_id r" by auto
    from r(1) have rl: "r \<in> set (lot_spots d (lot_id lot))"
      by (auto simp: spots_to_remove_def Let_def split: if_splits dest: in_set_takeD)
    from x rl have "x \<in> set (spots d)" "r \<in> set (spots d)" by (simp_all add: lot_spots_def)
    from distinct_ids_eq[OF dist this r(2)] x rl other show False by (simp add: lot_spots_def)
  qed
  then show ?thesis
    unfolding shrink_spots_def lot_spots_fold_delete_spot by (simp add: filter_id_conv)
qed

lemma lot_ids_update_lot:
  "(\<And>l. lot_id (f l) = lot_id l) \<Longrightarrow>
   map lot_id (lots (update_lot lid f d)) = map lot_id (lots d)"
  by (simp add: update_lot_def)

lemma find_Some_mem: "find P xs = Some x \<Longrightarrow> x \<in> set xs"
  by (induction xs) (auto split: if_splits)

lemma well_numbered_edit:
  assumes w: "well_numbered d"
  shows "well_numbered (snd (edit_parking_lot d u lid m form))"
  using edit_parking_lot_unchanged_or_resized[of d u lid m form]
proof (elim disjE exE conjE)
  assume "snd (edit_parking_lot d u lid m form) = d"
  with w show ?thesis by simp
next
  fix lot
  let ?n = "f_max_no_spots form"
  let ?d1 = "update_lot lid (set_lot_details form) d"
  let ?d2 = "if ?n > max_no_spots lot then grow_spots lot ?n ?d1
             else if ?n < max_no_spots lot then shrink_spots lot ?n ?d1 else ?d1"
  let ?d3 = "update_lot lid (\<lambda>l. l\<lparr>max_no_spots := ?n\<rparr>) ?d2"
  assume lot: "get_lot d lid = Some lot"
    and res: "snd (edit_parking_lot d u lid m form) = renumber lid ?d3"
  have lid: "lot_id lot = lid" using lot by (rule get_lot_id)
  have dist: "distinct (map spot_id (spots d))" using w by (simp add: well_numbered_def)
  have dist1: "distinct (map spot_id (spots ?d1))" using dist by simp
  have rows1: "lot_spots ?d1 l = lot_spots d l" for l by (rule lot_spots_spots) simp
  have sorted1: "sorted (map get_spot_number (lot_spots ?d1 lid))"
    using well_numbered_rows[OF w, of lid] by (simp add: rows1)
  have dist2: "distinct (map spot_id (spots ?d2))"
    using dist1 by (simp add: distinct_grow distinct_shrink)
  have sorted2: "sorted (map get_spot_number (lot_spots ?d2 lid))"
    using sorted1 grow_rows_sorted[of ?d1 lot ?n] shrink_rows_sorted[of ?d1 lid lot ?n]
    by (simp add: lid)
  have other2: "lot_spots ?d2 l = lot_spots d l" if "l \<noteq> lid" for l
    using that grow_other_lot[of l lot ?n ?d1] shrink_other_lot[OF dist1, of l lot ?n]
    by (simp add: lid rows1)
  have dist3: "distinct (map spot_id (spots ?d3))" using dist2 by simp
  have rows3: "lot_spots ?d3 l = lot_spots ?d2 l" for l by (rule lot_spots_spots) simp
  let ?d' = "renumber lid ?d3"
  have own: "map get_spot_number (lot_spots ?d' lid) = [1..int (length (lot_spots ?d' lid))]"
  proof -
    have "map get_spot_number (lot_spots ?d' lid) = [1..int (length (lot_spots ?d3 lid))]"
      using dist3 sorted2 by (intro renumber_in_order) (simp_all only: rows3)
    moreover have "length (lot_spots ?d' lid) = length (lot_spots ?d3 lid)"
      by (simp add: lot_spots_renumber)
    ultimately show ?thesis by simp
  qed
  have other: "lot_spots ?d' l = lot_spots d l" if "l \<noteq> lid" for l
    using that by (simp add: renumber_other_lot rows3 other2)
  have ids: "map lot_id (lots ?d') = map lot_id (lots d)"
  proof -
    have "lots ?d2 = lots ?d1" by simp
    then have "map lot_id (lots ?d3) = map lot_id (lots ?d1)"
      by (simp add: lot_ids_update_lot)
    then show ?thesis by (simp add: lot_ids_update_lot set_lot_details_def)
  qed
  have "well_numbered ?d'"
  proof (rule well_numberedI)
    show "distinct (map spot_id (spots ?d'))" using dist3 by simp
    show "parking_lot_id x \<in> set (map lot_id (lots ?d'))" if x: "x \<in> set (spots ?d')" for x
    proof (cases "parking_lot_id x = lid")
      case True
      from lot have "lot \<in> set (lots d)" unfolding get_lot_def by (rule find_Some_mem)
      then have "lid \<in> set (map lot_id (lots d))" using lid by auto
      with True show ?thesis by (simp only: ids)
    next
      case False
      from x have "x \<in> set (lot_spots ?d' (parking_lot_id x))" by (simp add: lot_spots_def)
      with other[OF False] have "x \<in> set (spots d)" by (simp add: lot_spots_def)
      with w have "parking_lot_id x \<in> set (map lot_id (lots d))"
        by (simp add: well_numbered_def list_all_iff del: set_map)
      then show ?thesis by (simp only: ids)
    qed
    show "map get_spot_number (lot_spots ?d' l) = [1..int (length (lot_spots ?d' l))]" for l
    proof (cases "l = lid")
      case True
      with own show ?thesis by simp
    next
      case False
      with other[OF False] well_numbered_rows[OF w, of l] show ?thesis by simp
    qed
  qed
  with res show ?thesis by simp
qed

lemma well_numbered_run:
  "well_numbered d \<Longrightarrow> well_numbered (run Controllers d requests)"
proof (induction requests arbitrary: d)
  case Nil
  then show ?case by simp
next
  case (Cons r rs)
  have "well_numbered (snd (handle Controllers d r))"
    using Cons.prems
    by (cases r) (simp_all add: well_numbered_create well_numbered_edit well_numbered_reserve
        release_spot_with well_numbered_release_with)
  then show ?case using Cons.IH by simp
qed

section \<open>Which spot a reservation takes\<close>

text \<open>
  What both \<open>reserve_spot\<close> do in any database: they take the first Available row of
  the lot in storage order (\<open>.first()\<close> of a query with no \<open>order_by\<close>). That row
  has the lowest ordinal among the Available spots when the lot's rows are stored in
  ascending ordinal order, as they are in every database that create, resize, reserve and
  release requests to the controllers reach from the empty one. With no Available spot the
  answer is LotFull and the database is unchanged.
\<close>

theorem reserve_takes_first_available:
  assumes "active_booking d (u_id cu) = None" and "get_lot d lid = Some lot"
  shows "(spots_with_status d lid Available = [] \<longrightarrow>
            reserve_spot d cu lid POST vehicle now = (Failure LotFull, d))
       \<and> (\<forall>spot rest. spots_with_status d lid Available = spot # rest \<longrightarrow>
            fst (reserve_spot d cu lid POST vehicle now) = Success
          \<and> spots (snd (reserve_spot d cu lid POST vehicle now))
              = map (\<lambda>s. if spot_id s = spot_id spot
                          then s\<lparr>status := Occupied, user_id := Some (u_id cu)\<rparr> else s) (spots d)
          \<and> (\<exists>b. bookings (snd (reserve_spot d cu lid POST vehicle now)) = bookings d @ [b]
                 \<and> parking_spot_id b = spot_id spot \<and> b_user_id b = u_id cu
                 \<and> out_time b = None)
          \<and> (sorted (map get_spot_number (lot_spots d lid)) \<longrightarrow>
               (\<forall>s\<in>set (spots_with_status d lid Available).
                   get_spot_number spot \<le> get_spot_number s)))
       \<and> app_reserve_spot d cu lid POST vehicle now = reserve_spot d cu lid POST vehicle now
       \<and> ((\<exists>requests. d = run Controllers empty_db requests) \<longrightarrow>
            sorted (map get_spot_number (lot_spots d lid)))"
proof (intro conjI allI impI)
  assume "spots_with_status d lid Available = []"
  with assms show "reserve_spot d cu lid POST vehicle now = (Failure LotFull, d)"
    by (simp add: reserve_spot_def)
next
  fix spot rest
  assume a: "spots_with_status d lid Available = spot # rest"
  with assms show "fst (reserve_spot d cu lid POST vehicle now) = Success"
    by (simp add: reserve_spot_def Let_def)
  from a assms show "spots (snd (reserve_spot d cu lid POST vehicle now))
              = map (\<lambda>s. if spot_id s = spot_id spot
                          then s\<lparr>status := Occupied, user_id := Some (u_id cu)\<rparr> else s) (spots d)"
    by (simp add: reserve_spot_def Let_def update_spot_def)
  from a assms show "\<exists>b. bookings (snd (reserve_spot d cu lid POST vehicle now)) = bookings d @ [b]
                 \<and> parking_spot_id b = spot_id spot \<and> b_user_id b = u_id cu
                 \<and> out_time b = None"
    by (simp add: reserve_spot_def Let_def update_spot_def)
  assume s: "sorted (map get_spot_number (lot_spots d lid))"
  show "\<forall>s\<in>set (spots_with_status d lid Available). get_spot_number spot \<le> get_spot_number s"
  proof
    fix x assume "x \<in> set (spots_with_status d lid Available)"
    with sorted_hd_min[OF s, of "\<lambda>s. status s = Available" spot rest x] a
    show "get_spot_number spot \<le> get_spot_number x"
      by (simp add: spots_with_status_filter)
  qed
next
  show "app_reserve_spot d cu lid POST vehicle now = reserve_spot d cu lid POST vehicle now"
    by (simp add: app_reserve_spot_eq)
next
  assume "\<exists>requests. d = run Controllers empty_db requests"
  then have "well_numbered d"
    using well_numbered_run[OF well_numbered_empty] by blast
  then have "map get_spot_number (lot_spots d lid) = [1..int (length (lot_spots d lid))]"
    by (rule well_numbered_rows)
  then show "sorted (map get_spot_number (lot_spots d lid))" by simp
qed

theorem reserve_takes_first_available_witness:
  "fst (reserve_spot (run Controllers empty_db last_taken) (driver 2) 1 POST ''TN04'' hour) = Success
   \<and> map (\<lambda>s. (spot_number s, status s))
        (spots (snd (reserve_spot (run Controllers empty_db last_taken) (driver 2) 1 POST ''TN04'' hour)))
       = [(''S1'', Occupied), (''S2'', Available), (''S3'', Occupied)]
   \<and> reserve_spot (full_db Controllers) (driver 4) 1 POST ''TN04'' hour
       = (Failure LotFull, full_db Controllers)
   \<and> sorted (map get_spot_number (lot_spots (run Controllers empty_db last_taken) 1))"
proof -
  let ?d = "run Controllers empty_db last_taken"
  let ?lot = "\<lparr>lot_id = 1, name = ''Central'', address = ''1 Main Road'', pincode = ''600001'',
               price_per_hour = 60, max_no_spots = 3\<rparr>"
  let ?s1 = "\<lparr>spot_id = 1, parking_lot_id = 1, spot_number = ''S1'', status = Available,
              user_id = None\<rparr>"
  let ?s2 = "\<lparr>spot_id = 2, parking_lot_id = 1, spot_number = ''S2'', status = Available,
              user_id = None\<rparr>"
  have 1: "active_booking ?d (u_id (driver 2)) = None" by code_simp
  have 2: "get_lot ?d 1 = Some ?lot" by code_simp
  have 3: "spots_with_status ?d 1 Available = ?s1 # [?s2]" by code_simp
  have 4: "map (\<lambda>s. (spot_number s, status s))
             (map (\<lambda>s. if spot_id s = spot_id ?s1
                        then s\<lparr>status := Occupied, user_id := Some (u_id (driver 2))\<rparr> else s)
                (spots ?d))
           = [(''S1'', Occupied), (''S2'', Available), (''S3'', Occupied)]" by code_simp
  have 5: "active_booking (full_db Controllers) (u_id (driver 4)) = None" by code_simp
  have 6: "get_lot (full_db Controllers) 1 = Some (?lot\<lparr>max_no_spots := 2\<rparr>)" by code_simp
  have 7: "spots_with_status (full_db Controllers) 1 Available = []" by code_simp
  from reserve_takes_first_available[OF 1 2, where vehicle = "''TN04''" and now = hour] 3
  have a: "fst (reserve_spot ?d (driver 2) 1 POST ''TN04'' hour) = Success"
    and b: "spots (snd (reserve_spot ?d (driver 2) 1 POST ''TN04'' hour))
              = map (\<lambda>s. if spot_id s = spot_id ?s1
                          then s\<lparr>status := Occupied, user_id := Some (u_id (driver 2))\<rparr> else s)
                  (spots ?d)"
    by blast+
  from reserve_takes_first_available[OF 5 6, where vehicle = "''TN04''" and now = hour] 7
  have c: "reserve_spot (full_db Controllers) (driver 4) 1 POST ''TN04'' hour
             = (Failure LotFull, full_db Controllers)"
    by blast
  from reserve_takes_first_available[OF 1 2, where vehicle = "''TN04''" and now = hour]
  have e: "sorted (map get_spot_number (lot_spots ?d 1))"
    by blast
  from a b c e 4 show ?thesis by simp
qed

text \<open>
  In the controllers the lowest ordinal is taken: in every database that create, resize,
  reserve and release requests reach from the empty one, a reservation on a lot with an
  Available spot succeeds and books the Available spot with the lowest ordinal.
\<close>

lemma controllers_reserve_lowest:
  assumes "d = run Controllers empty_db requests"
    and "active_booking d (u_id cu) = None" and "get_lot d lid = Some lot"
    and "spots_with_status d lid Available = spot # rest"
  shows "fst (reserve_spot d cu lid POST vehicle now) = Success
       \<and> (\<exists>b. bookings (snd (reserve_spot d cu lid POST vehicle now)) = bookings d @ [b]
              \<and> parking_spot_id b = spot_id spot \<and> b_user_id b = u_id cu \<and> out_time b = None)
       \<and> (\<forall>s\<in>set (spots_with_status d lid Available).
              get_spot_number spot \<le> get_spot_number s)"
proof -
  have "well_numbered d"
    unfolding assms(1) using well_numbered_empty by (rule well_numbered_run)
  then have "map get_spot_number (lot_spots d lid) = [1..int (length (lot_spots d lid))]"
    by (rule well_numbered_rows)
  then have srt: "sorted (map get_spot_number (lot_spots d lid))" by simp
  have low: "get_spot_number spot \<le> get_spot_number x"
    if "x \<in> set (spots_with_status d lid Available)" for x
    using sorted_hd_min[OF srt, of "\<lambda>s. status s = Available" spot rest x] assms(4) that
    by (simp add: spots_with_status_filter)
  from assms(2,3,4) have "fst (reserve_spot d cu lid POST vehicle now) = Success"
    by (simp add: reserve_spot_def Let_def)
  moreover from assms(2,3,4)
  have "\<exists>b. bookings (snd (reserve_spot d cu lid POST vehicle now)) = bookings d @ [b]
          \<and> parking_spot_id b = spot_id spot \<and> b_user_id b = u_id cu \<and> out_time b = None"
    by (simp add: reserve_spot_def Let_def update_spot_def)
  ultimately show ?thesis using low by blast
qed

text \<open>
  C5. The claim is that a successful Reserve takes the Available spot of the lot with the
  lowest ordinal. In \<^verbatim>\<open>app.py\<close> it does not: a lot of three spots is filled, S1 and S2 are
  released, the lot is shrunk to one spot (S3, Occupied, stays) and grown to two, and
  \<open>edit_parking_lot\<close> numbers the new spot from the capacity: S2, stored after S3. S3
  is released, and the next reservation takes S3 although S2 is Available. On the same
  requests the controllers hold S1 and S2 and the reservation takes S1.
\<close>

theorem app_reserve_not_lowest:
  "scattered_db
     = run App empty_db
         (last_taken @
          [ResizeLot admin 1 POST (lot_of_size 1), ResizeLot admin 1 POST (lot_of_size 2),
           Release (driver 4) 3 hour])
   \<and> map (\<lambda>s. (spot_id s, spot_number s, status s)) (lot_spots scattered_db 1)
       = [(3, ''S3'', Available), (4, ''S2'', Available)]
   \<and> map get_spot_number (spots_with_status scattered_db 1 Available) = [3, 2]
   \<and> active_booking scattered_db (u_id (driver 5)) = None
   \<and> fst (app_reserve_spot scattered_db (driver 5) 1 POST ''TN05'' (2 * hour)) = Success
   \<and> map (\<lambda>s. (spot_id s, spot_number s, status s))
        (lot_spots (snd (app_reserve_spot scattered_db (driver 5) 1 POST ''TN05'' (2 * hour))) 1)
       = [(3, ''S3'', Occupied), (4, ''S2'', Available)]
   \<and> map parking_spot_id
        (filter (\<lambda>b. out_time b = None)
           (bookings (snd (app_reserve_spot scattered_db (driver 5) 1 POST ''TN05'' (2 * hour)))))
       = [3]
   \<and> map (\<lambda>s. (spot_id s, spot_number s, status s))
        (lot_spots
           (snd (reserve_spot
                   (run Controllers empty_db
                      (last_taken @
                       [ResizeLot admin 1 POST (lot_of_size 1),
                        ResizeLot admin 1 POST (lot_of_size 2), Release (driver 4) 3 hour]))
                   (driver 5) 1 POST ''TN05'' (2 * hour))) 1)
       = [(3, ''S1'', Occupied), (4, ''S2'', Available)]"
  by code_simp

section \<open>The resize of \<^verbatim>\<open>app.py\<close>\<close>

text \<open>
  C1. The claim is that after every successful resize the ordinals of the lot's spots are
  exactly 1, ..., capacity. \<open>edit_parking_lot\<close> of \<^verbatim>\<open>app.py\<close> never renumbers: with S1
  and S2 Available and S3 Occupied, the resize to two spots succeeds, deletes S2, and leaves
  S1 and S3 with a capacity of 2. On the same requests the controllers' \<open>edit_parking_lot\<close>
  renumbers the two spots S1 and S2.
\<close>

theorem app_resize_leaves_gap:
  "fst (handle App (run App empty_db last_taken) (ResizeLot admin 1 POST (lot_of_size 2))) = Success
   \<and> gap_db = snd (handle App (run App empty_db last_taken) (ResizeLot admin 1 POST (lot_of_size 2)))
   \<and> map (\<lambda>s. (spot_number s, status s)) (lot_spots (run App empty_db last_taken) 1)
       = [(''S1'', Available), (''S2'', Available), (''S3'', Occupied)]
   \<and> map (\<lambda>s. (spot_number s, status s)) (lot_spots gap_db 1)
       = [(''S1'', Available), (''S3'', Occupied)]
   \<and> map max_no_spots (lots gap_db) = [2]
   \<and> \<not> ordinals_exact gap_db 1
   \<and> ordinals_exact
        (snd (handle Controllers (run Controllers empty_db last_taken)
                (ResizeLot admin 1 POST (lot_of_size 2)))) 1"
  by code_simp

text \<open>
  C4. The claim is that the spots a growing resize creates get ordinals above the highest
  ordinal in use. \<open>edit_parking_lot\<close> of \<^verbatim>\<open>app.py\<close> numbers them from the recorded
  capacity: in \<open>gap_db\<close> the capacity is 2 and S3 is in use, and the resize to three spots
  creates a second S3. The controllers' \<open>edit_parking_lot\<close> starts from the highest number
  it finds.
\<close>

theorem app_grow_collides:
  "map (\<lambda>s. (spot_id s, spot_number s)) (lot_spots gap_db 1) = [(1, ''S1''), (3, ''S3'')]
   \<and> map max_no_spots (lots gap_db) = [2]
   \<and> fst (handle App gap_db (ResizeLot admin 1 POST (lot_of_size 3))) = Success
   \<and> map (\<lambda>s. (spot_id s, spot_number s))
        (lot_spots (snd (handle App gap_db (ResizeLot admin 1 POST (lot_of_size 3)))) 1)
       = [(1, ''S1''), (3, ''S3''), (4, ''S3'')]
   \<and> \<not> distinct (map get_spot_number
          (lot_spots (snd (handle App gap_db (ResizeLot admin 1 POST (lot_of_size 3)))) 1))"
  by code_simp


end
